theory Spec2Isabelle
  imports Complex_Main "HOL-Library.Multiset"
begin

section \<open>The master source catalog (class SuperScene of dispatcher.py)\<close>

text \<open>
  The catalog is a numpy structured array. Its float columns are modelled by real numbers:
  the rounding of single operations is outside the model. The seed weights, where the
  code can produce infinities and NaN, have a float type of their own below. The integer
  columns \<open>n_iter\<close> and \<open>n_patch\<close> have a fixed width and wrap around; the widths are part
  of the dtype, which \<open>sourcecat_dtype\<close> of catalog.py declares and which is a parameter
  here. The code is for numpy before 1.24 (it uses \<open>np.float\<close>).
\<close>

datatype error = KeyError | IndexError | ValueError | TypeError | MPIError

text \<open>
  One row of the structured array \<open>sourcecat\<close>. The float columns (\<open>ra\<close>, \<open>dec\<close>,
  \<open>rhalf\<close>, \<open>pa\<close>, fluxes, ...) are read by name through \<open>cols\<close>; the bookkeeping columns
  the dispatcher reads and writes have a field each.
\<close>

record source =
  source_index :: int
  cols :: "string \<Rightarrow> real"
  is_active :: bool
  is_valid :: bool
  n_iter :: int
  n_patch :: int

text \<open>
  A structured array handed to \<open>checkin_region\<close>: the field names of its dtype and its
  rows. Reading a column whose name is not among them raises ValueError.
\<close>

record rows =
  row_names :: "string list"
  entries :: "source list"

text \<open>
  The dtype of the catalog, as far as the dispatcher depends on it: the names of its float
  columns beyond \<open>ra\<close>, \<open>dec\<close>, \<open>rhalf\<close> and \<open>pa\<close>, and the widths in bits of the signed
  integer columns \<open>n_iter\<close> and \<open>n_patch\<close>.
\<close>

record dtype =
  float_names :: "string list"
  n_iter_bits :: nat
  n_patch_bits :: nat

record superscene =
  sourcecat :: "source list"
  cat_dtype :: dtype
  scene_coordinates :: "(real \<times> real) list"
  to_scene :: "real \<times> real \<Rightarrow> real \<times> real"
  parameter_columns :: "string list"
  n_sources :: nat
  n_active :: int
  n_fixed :: int
  maxactive_fraction :: real
  target_niter :: int
  maxradius :: real
  minradius :: real
  maxactive :: int
  boundary_radius :: real
  nscale :: real

subsection \<open>Python and numpy indexing\<close>

text \<open>An integer index into a sequence of length \<open>n\<close>: negative indices count from the end.\<close>

definition norm_index :: "nat \<Rightarrow> int \<Rightarrow> nat option" where
  "norm_index n i =
     (if 0 \<le> i \<and> i < int n then Some (nat i)
      else if - int n \<le> i \<and> i < 0 then Some (nat (int n + i))
      else None)"

text \<open>An index array: numpy checks every index before it reads or writes anything.\<close>

definition fancy_index :: "nat \<Rightarrow> int list \<Rightarrow> error + nat list" where
  "fancy_index n inds =
     (if \<forall>i \<in> set inds. norm_index n i \<noteq> None
      then Inr (map (\<lambda>i. the (norm_index n i)) inds)
      else Inl IndexError)"

text \<open>\<open>a[inds] = c\<close> and \<open>a[inds] = vals\<close>, written row by row (a repeated index: the last write wins).\<close>

definition assign_const :: "('a \<Rightarrow> 'a) \<Rightarrow> nat list \<Rightarrow> 'a list \<Rightarrow> 'a list" where
  "assign_const g inds a = fold (\<lambda>i c. c[i := g (c ! i)]) inds a"

definition assign_vals :: "('v \<Rightarrow> 'a \<Rightarrow> 'a) \<Rightarrow> nat list \<Rightarrow> 'v list \<Rightarrow> 'a list \<Rightarrow> 'a list" where
  "assign_vals g inds vals a = fold (\<lambda>(i, v) c. c[i := g v (c ! i)]) (zip inds vals) a"

text \<open>A signed integer of \<open>w\<close> bits: results wrap around (two's complement).\<close>

definition wrap :: "nat \<Rightarrow> int \<Rightarrow> int" where
  "wrap w x = (x + 2 ^ (w - 1)) mod 2 ^ w - 2 ^ (w - 1)"

text \<open>
  \<open>a[inds] += d\<close> on an integer column of \<open>w\<close> bits: numpy reads \<open>a[inds]\<close>, adds, and writes
  the sums back in the width of the column, so a repeated index is incremented once.
\<close>

text \<open>The sums that a signed integer of \<open>w\<close> bits holds.\<close>

definition fits :: "nat \<Rightarrow> int \<Rightarrow> bool" where
  "fits w x = (0 < w \<and> - (2 ^ (w - 1)) \<le> x \<and> x < 2 ^ (w - 1))"

definition assign_add :: "nat \<Rightarrow> ('a \<Rightarrow> int) \<Rightarrow> (int \<Rightarrow> 'a \<Rightarrow> 'a) \<Rightarrow> int \<Rightarrow> nat list \<Rightarrow> 'a list \<Rightarrow> 'a list" where
  "assign_add w get put d inds a = assign_vals put inds (map (\<lambda>i. wrap w (get (a ! i) + d)) inds) a"

text \<open>The slices \<open>xs[:k]\<close> and \<open>xs[k:]\<close>.\<close>

definition slice_to :: "int \<Rightarrow> 'a list \<Rightarrow> 'a list" where
  "slice_to k xs = (if k < 0 then take (length xs - nat (- k)) xs else take (nat k) xs)"

definition slice_from :: "int \<Rightarrow> 'a list \<Rightarrow> 'a list" where
  "slice_from k xs = (if k < 0 then drop (length xs - nat (- k)) xs else drop (nat k) xs)"

subsection \<open>checkin_region\<close>

definition set_col :: "string \<Rightarrow> real \<Rightarrow> source \<Rightarrow> source" where
  "set_col f v r = r\<lparr>cols := (cols r)(f := v)\<rparr>"

text \<open>
  Reading and writing a row by field name. A value is carried as a real number; storing it
  casts it to the type of the field.
\<close>

definition to_int :: "real \<Rightarrow> int" where
  "to_int v = (if 0 \<le> v then \<lfloor>v\<rfloor> else \<lceil>v\<rceil>)"

definition get_field :: "string \<Rightarrow> source \<Rightarrow> real" where
  "get_field f r =
     (if f = ''source_index'' then real_of_int (source_index r)
      else if f = ''is_active'' then (if is_active r then 1 else 0)
      else if f = ''is_valid'' then (if is_valid r then 1 else 0)
      else if f = ''n_iter'' then real_of_int (n_iter r)
      else if f = ''n_patch'' then real_of_int (n_patch r)
      else cols r f)"

definition store_field :: "string \<Rightarrow> real \<Rightarrow> source \<Rightarrow> source" where
  "store_field f v r =
     (if f = ''source_index'' then r\<lparr>source_index := to_int v\<rparr>
      else if f = ''is_active'' then r\<lparr>is_active := (v \<noteq> 0)\<rparr>
      else if f = ''is_valid'' then r\<lparr>is_valid := (v \<noteq> 0)\<rparr>
      else if f = ''n_iter'' then r\<lparr>n_iter := to_int v\<rparr>
      else if f = ''n_patch'' then r\<lparr>n_patch := to_int v\<rparr>
      else set_col f v r)"

text \<open>The field names of the catalog: the columns the dispatcher itself uses, and the others.\<close>

definition bookkeeping :: "string list" where
  "bookkeeping = [''source_index'', ''is_active'', ''is_valid'', ''n_iter'', ''n_patch'']"

definition dtype_names :: "string list \<Rightarrow> string list" where
  "dtype_names extra =
     [''source_index'', ''is_active'', ''is_valid'', ''n_iter'', ''n_patch'',
      ''ra'', ''dec'', ''rhalf'', ''pa''] @ extra"

text \<open>
  The loop over \<open>parameter_columns\<close>, \<open>sourcecat[f][active_inds] = active[f]\<close>: reading
  \<open>active[f]\<close> or \<open>sourcecat[f]\<close> raises ValueError when the table has no such field, and
  the assignment raises IndexError on an index outside the catalog. The result is the
  exception, if any, and the catalog with the columns written before it.
\<close>

fun update_parameters ::
  "string list \<Rightarrow> rows \<Rightarrow> string list \<Rightarrow> int list \<Rightarrow> source list \<Rightarrow> error option \<times> source list" where
  "update_parameters [] active cat_names inds cat = (None, cat)"
| "update_parameters (f # fs) active cat_names inds cat =
     (if f \<notin> set (row_names active) \<or> f \<notin> set cat_names then (Some ValueError, cat)
      else case fancy_index (length cat) inds of
             Inl e \<Rightarrow> (Some e, cat)
           | Inr ai \<Rightarrow>
               update_parameters fs active cat_names inds
                 (assign_vals (store_field f) ai (map (get_field f) (entries active)) cat))"

text \<open>
  What the loop has written when it raises nothing: every column in turn, at the
  positions \<open>ai\<close> that the indices stand for.
\<close>

definition write_columns :: "string list \<Rightarrow> nat list \<Rightarrow> source list \<Rightarrow> source list \<Rightarrow> source list" where
  "write_columns fs ai rs cat =
     fold (\<lambda>f c. assign_vals (store_field f) ai (map (get_field f) rs) c) fs cat"

definition column_source_index :: "rows \<Rightarrow> error + int list" where
  "column_source_index t =
     (if ''source_index'' \<in> set (row_names t) then Inr (map source_index (entries t))
      else Inl ValueError)"

text \<open>
  \<open>niter\<close> is a Python integer: adding one that does not fit 64 bits to an integer column
  raises TypeError.
\<close>

definition int64 :: "int \<Rightarrow> bool" where
  "int64 d = (- (2 ^ 63) \<le> d \<and> d < 2 ^ 63)"

text \<open>
  The result is the exception raised, if any, and the scene as the call leaves it: an
  exception raised half-way keeps the writes made before it.
\<close>

definition checkin_region :: "rows \<Rightarrow> rows \<Rightarrow> int \<Rightarrow> superscene \<Rightarrow> (error + unit) \<times> superscene" where
  "checkin_region active fixed niter ss =
     (case column_source_index active of Inl e \<Rightarrow> (Inl e, ss) | Inr active_inds \<Rightarrow>
      case column_source_index fixed of Inl e \<Rightarrow> (Inl e, ss) | Inr fixed_inds \<Rightarrow>
      case update_parameters (parameter_columns ss) active
             (dtype_names (float_names (cat_dtype ss))) active_inds (sourcecat ss) of
        (Some e, c1) \<Rightarrow> (Inl e, ss\<lparr>sourcecat := c1\<rparr>)
      | (None, c1) \<Rightarrow>
      case fancy_index (length c1) active_inds of Inl e \<Rightarrow> (Inl e, ss\<lparr>sourcecat := c1\<rparr>) | Inr ai \<Rightarrow>
      if \<not> int64 niter then (Inl TypeError, ss\<lparr>sourcecat := c1\<rparr>)
      else
        let c2 = assign_add (n_iter_bits (cat_dtype ss)) n_iter (\<lambda>v r. r\<lparr>n_iter := v\<rparr>) niter ai c1;
            c3 = assign_const (\<lambda>r. r\<lparr>is_active := False\<rparr>) ai c2;
            c4 = assign_add (n_patch_bits (cat_dtype ss)) n_patch (\<lambda>v r. r\<lparr>n_patch := v\<rparr>) 1 ai c3;
            c5 = assign_const (\<lambda>r. r\<lparr>is_valid := True\<rparr>) ai c4
        in case fancy_index (length c5) fixed_inds of
             Inl e \<Rightarrow> (Inl e, ss\<lparr>sourcecat := c5\<rparr>)
           | Inr fi \<Rightarrow>
               (Inr (), ss\<lparr>sourcecat := assign_const (\<lambda>r. r\<lparr>is_valid := True\<rparr>) fi c5,
                            n_active := n_active ss - int (length active_inds),
                            n_fixed := n_fixed ss - int (length fixed_inds)\<rparr>))"


subsection \<open>Patch selection: get_circular_scene\<close>

definition hypot :: "real \<Rightarrow> real \<Rightarrow> real" where
  "hypot x y = sqrt (x * x + y * y)"

definition distance_to :: "real \<times> real \<Rightarrow> real \<times> real \<Rightarrow> real" where
  "distance_to center p = hypot (fst p - fst center) (snd p - snd center)"

text \<open>
  The KD-tree is built once from \<open>scene_coordinates\<close>; its ball query returns the indices of
  the points within \<open>r\<close> of the centre (inclusive). scipy returns them in no specified
  order; the index order taken here is one of the orders it can return, and the code sorts
  the candidates by distance before it uses their order.
\<close>

definition query_ball_point :: "(real \<times> real) list \<Rightarrow> real \<times> real \<Rightarrow> real \<Rightarrow> nat list" where
  "query_ball_point pts center r = filter (\<lambda>i. distance_to center (pts ! i) \<le> r) [0..<length pts]"

text \<open>
  \<open>np.argsort\<close>: the positions of \<open>xs\<close> in ascending order of value. Among equal values
  numpy's default sort keeps the index order on arrays of at most 16 elements (an insertion
  sort) and specifies no order on longer ones; the index order taken here is then one of
  the orders it can return.
\<close>

definition argsort :: "real list \<Rightarrow> nat list" where
  "argsort xs = sort_key (\<lambda>j. xs ! j) [0..<length xs]"

text \<open>\<open>np.argmin\<close> on a non-empty array: the first position that holds the minimum.\<close>

definition argmin :: "'a::linorder list \<Rightarrow> nat" where
  "argmin xs = length (takeWhile (\<lambda>x. Min (set xs) < x) xs)"

text \<open>\<open>a.max()\<close>: raises ValueError on an empty array.\<close>

definition amax :: "real list \<Rightarrow> error + real" where
  "amax xs = (if xs = [] then Inl ValueError else Inr (Max (set xs)))"

text \<open>
  The "outer" and "inner" distance of each candidate: its distance from the centre plus or
  minus \<open>nscale\<close> half-light radii.
\<close>

definition outer_distance :: "superscene \<Rightarrow> real \<times> real \<Rightarrow> nat list \<Rightarrow> real list" where
  "outer_distance ss center kinds =
     map (\<lambda>k. distance_to center (scene_coordinates ss ! k) + nscale ss * cols (sourcecat ss ! k) ''rhalf'') kinds"

definition inner_distance :: "superscene \<Rightarrow> real \<times> real \<Rightarrow> nat list \<Rightarrow> real list" where
  "inner_distance ss center kinds =
     map (\<lambda>k. distance_to center (scene_coordinates ss ! k) - nscale ss * cols (sourcecat ss ! k) ''rhalf'') kinds"

text \<open>\<open>N_inside = np.argmin(outer[order] < self.maxradius)\<close>, on the sorted outer distances.\<close>

definition N_inside :: "real list \<Rightarrow> real \<Rightarrow> nat" where
  "N_inside sorted_outer maxr = argmin (map (\<lambda>x. x < maxr) sorted_outer)"

datatype selection = Conflict | Selected real "nat list" "nat list"

text \<open>
  \<open>Conflict\<close> is the return value \<open>(None, None, None)\<close>. An empty query result becomes an
  empty float array, which numpy refuses as an index (IndexError); so does an index beyond
  the catalog.
\<close>

definition get_circular_scene :: "superscene \<Rightarrow> real \<times> real \<Rightarrow> error + selection" where
  "get_circular_scene ss center =
     (let kinds = query_ball_point (scene_coordinates ss) center (boundary_radius ss) in
      if kinds = [] \<or> (\<exists>k \<in> set kinds. length (sourcecat ss) \<le> k) then Inl IndexError
      else if \<exists>k \<in> set kinds. is_active (sourcecat ss ! k) then Inr Conflict
      else
        let outer = outer_distance ss center kinds;
            inner = inner_distance ss center kinds;
            order = argsort outer;
            N_active = min (maxactive ss) (int (N_inside (map (\<lambda>j. outer ! j) order) (maxradius ss)));
            active_inds = slice_to N_active order;
            finds = slice_from N_active order
        in case amax (slice_to N_active (map (\<lambda>j. outer ! j) order)) of
             Inl e \<Rightarrow> Inl e
           | Inr m \<Rightarrow>
               let radius = max (minradius ss) m;
                   fixed_inds = slice_to (min (maxactive ss) (int (length finds)))
                                  (filter (\<lambda>j. inner ! j < radius) finds);
                   fixed_inds = (if length fixed_inds = 0 then slice_to 1 finds else fixed_inds)
               in Inr (Selected radius (map (\<lambda>j. kinds ! j) active_inds)
                                       (map (\<lambda>j. kinds ! j) fixed_inds)))"

subsection \<open>Seed selection: exp_weight and draw_center\<close>

text \<open>
  The seed weights are float64 values, and here the code meets infinities and NaN: a value
  is NaN, positive infinity, or finite. A finite result is the exact one (rounding is not
  modelled) unless it is at or beyond half-way between the largest double and \<open>2^1024\<close>,
  where it overflows, or, for \<open>exp\<close>, at or below half the smallest positive double, where
  it underflows to 0. Only non-negative values occur in the weights.
\<close>

datatype f64 = NaN | Inf | Fin real

definition overflow_bound :: real where
  "overflow_bound = 2 ^ 1024 - 2 ^ 970"

definition underflow_bound :: real where
  "underflow_bound = 1 / 2 ^ 1075"

definition fin :: "real \<Rightarrow> f64" where
  "fin x = (if overflow_bound \<le> x then Inf else Fin x)"

definition fexp :: "real \<Rightarrow> f64" where
  "fexp x =
     (if overflow_bound \<le> exp x then Inf
      else if exp x \<le> underflow_bound then Fin 0
      else Fin (exp x))"

fun fmul :: "f64 \<Rightarrow> f64 \<Rightarrow> f64" where
  "fmul NaN y = NaN"
| "fmul x NaN = NaN"
| "fmul Inf Inf = Inf"
| "fmul Inf (Fin b) = (if b = 0 then NaN else Inf)"
| "fmul (Fin a) Inf = (if a = 0 then NaN else Inf)"
| "fmul (Fin a) (Fin b) = fin (a * b)"

fun fadd :: "f64 \<Rightarrow> f64 \<Rightarrow> f64" where
  "fadd NaN y = NaN"
| "fadd x NaN = NaN"
| "fadd Inf y = Inf"
| "fadd x Inf = Inf"
| "fadd (Fin a) (Fin b) = fin (a + b)"

fun fdiv :: "f64 \<Rightarrow> f64 \<Rightarrow> f64" where
  "fdiv NaN y = NaN"
| "fdiv x NaN = NaN"
| "fdiv Inf Inf = NaN"
| "fdiv Inf (Fin b) = Inf"
| "fdiv (Fin a) Inf = Fin 0"
| "fdiv (Fin a) (Fin b) = (if b = 0 then (if a = 0 then NaN else Inf) else fin (a / b))"

definition fsum :: "f64 list \<Rightarrow> f64" where
  "fsum xs = fold (\<lambda>x acc. fadd acc x) xs (Fin 0)"

text \<open>
  \<open>exp_weight\<close>: \<open>n.min()\<close> raises ValueError on an empty catalog; the weights are 1.0 or 0.0
  times \<open>exp((n.mean() - n) / sigma)\<close>, divided by their sum. The quotient of two finite
  values is kept exact, also where a double would round it to 0.
\<close>

definition exp_weight :: "superscene \<Rightarrow> error + f64 list" where
  "exp_weight ss =
     (if sourcecat ss = [] then Inl ValueError
      else
        let n = map n_iter (sourcecat ss);
            mean = real_of_int (sum_list n) / real (length n);
            sigma = 20;
            w = map (\<lambda>r. fmul (if is_active r then Fin 0 else Fin 1)
                              (fexp ((mean - real_of_int (n_iter r)) / sigma)))
                  (sourcecat ss);
            s = fsum w
        in Inr (map (\<lambda>x. fdiv x s) w))"

text \<open>The argument of \<open>exp\<close> for a row, as a real number.\<close>

definition exponent :: "superscene \<Rightarrow> source \<Rightarrow> real" where
  "exponent ss r =
     (real_of_int (sum_list (map n_iter (sourcecat ss))) / real (length (sourcecat ss))
      - real_of_int (n_iter r)) / 20"

definition seed_weight :: "superscene \<Rightarrow> error + f64 list" where
  "seed_weight ss = exp_weight ss"

definition cumsum :: "real list \<Rightarrow> real list" where
  "cumsum xs = map (\<lambda>k. sum_list (take (Suc k) xs)) [0..<length xs]"

definition is_fin :: "f64 \<Rightarrow> bool" where
  "is_fin x = (case x of Fin v \<Rightarrow> True | _ \<Rightarrow> False)"

definition val :: "f64 \<Rightarrow> real" where
  "val x = (case x of Fin v \<Rightarrow> v | _ \<Rightarrow> 0)"

text \<open>
  \<open>np.random.choice(n, p=p)\<close> for the uniform variate \<open>u\<close> drawn from \<open>[0, 1)\<close>: numpy
  raises ValueError on an empty population, a length mismatch, a probability that is NaN,
  infinite or negative, and a sum further from 1 than \<open>sqrt(eps) = 2^-26\<close>; otherwise it
  searches \<open>u\<close> in the normalised cumulative sums (\<open>side='right'\<close>).
\<close>

definition random_choice :: "nat \<Rightarrow> f64 list \<Rightarrow> real \<Rightarrow> error + int" where
  "random_choice n p u =
     (if n = 0 \<or> length p \<noteq> n \<or> (\<exists>x \<in> set p. \<not> is_fin x) \<or> (\<exists>x \<in> set p. val x < 0)
         \<or> 1 / 2 ^ 26 < \<bar>sum_list (map val p) - 1\<bar>
      then Inl ValueError
      else let cdf = cumsum (map val p)
           in Inr (int (length (filter (\<lambda>c. c / last cdf \<le> u) cdf))))"

text \<open>\<open>if seed_index:\<close> is false for \<open>None\<close> and for \<open>0\<close>.\<close>

definition draw_center :: "superscene \<Rightarrow> int option \<Rightarrow> real \<Rightarrow> error + real \<times> real" where
  "draw_center ss seed_index u =
     (case (if seed_index \<noteq> None \<and> seed_index \<noteq> Some 0 then Inr (the seed_index)
            else case seed_weight ss of Inl e \<Rightarrow> Inl e
                 | Inr p \<Rightarrow> random_choice (n_sources ss) p u) of
        Inl e \<Rightarrow> Inl e
      | Inr k \<Rightarrow>
          (case norm_index (length (sourcecat ss)) k of
             None \<Rightarrow> Inl IndexError
           | Some i \<Rightarrow> Inr (cols (sourcecat ss ! i) ''ra'', cols (sourcecat ss ! i) ''dec'')))"

subsection \<open>checkout_region\<close>

datatype region = CircularRegion real real real

text \<open>
  What \<open>checkout_region\<close> returns: \<open>(center, None, None)\<close> when the selection found a
  conflict, otherwise the region and copies of the active and fixed rows.
\<close>

datatype checkout = NoRegion "real \<times> real" | Patch region "source list" "source list"

definition checkout_region :: "int option \<Rightarrow> real \<Rightarrow> superscene \<Rightarrow> (error + checkout) \<times> superscene" where
  "checkout_region seed_index u ss =
     (case draw_center ss seed_index u of Inl e \<Rightarrow> (Inl e, ss) | Inr (cra, cdec) \<Rightarrow>
      let center = to_scene ss (cra, cdec) in
      case get_circular_scene ss center of
        Inl e \<Rightarrow> (Inl e, ss)
      | Inr Conflict \<Rightarrow> (Inr (NoRegion center), ss)
      | Inr (Selected radius active_inds fixed_inds) \<Rightarrow>
          let c1 = assign_const (\<lambda>r. r\<lparr>is_active := True\<rparr>) active_inds (sourcecat ss);
              c2 = assign_const (\<lambda>r. r\<lparr>is_valid := False\<rparr>) active_inds c1;
              c3 = assign_const (\<lambda>r. r\<lparr>is_valid := False\<rparr>) fixed_inds c2
          in (Inr (Patch (CircularRegion cra cdec (radius / 3600))
                         (map (\<lambda>i. c3 ! i) active_inds) (map (\<lambda>i. c3 ! i) fixed_inds)),
              ss\<lparr>sourcecat := c3,
                 n_active := n_active ss + int (length active_inds),
                 n_fixed := n_fixed ss + int (length fixed_inds)\<rparr>))"


subsection \<open>Construction: ingest and __init__\<close>

text \<open>
  The table read from the catalog file: its column names and, for each row, the value of
  each named column. The dtype of \<open>sourcecat\<close> comes from \<open>sourcecat_dtype\<close> in catalog.py;
  it has the columns the dispatcher reads and writes, and its further float columns
  (shape parameters, fluxes per band) are the parameter \<open>extra\<close> of \<open>ingest\<close>.
\<close>

record fits_table =
  names :: "string list"
  data :: "(string \<Rightarrow> real) list"

text \<open>\<open>np.zeros(n, dtype)\<close>: every field of every row is zero, every flag false.\<close>

definition zeros :: source where
  "zeros = \<lparr>source_index = 0, cols = (\<lambda>f. 0), is_active = False, is_valid = False,
            n_iter = 0, n_patch = 0\<rparr>"

definition clip :: "real \<Rightarrow> real \<Rightarrow> real \<Rightarrow> real" where
  "clip x lo hi = min hi (max lo x)"

text \<open>
  \<open>ingest\<close>: the zero table, then every column of the file that the dtype also has, the
  clipping of \<open>rhalf\<close>, the rotation of \<open>pa\<close>, and \<open>source_index = arange(n)\<close>. Reading
  \<open>cat["ra"]\<close> and \<open>cat["dec"]\<close> raises when the file lacks them.
\<close>

definition ingest :: "fits_table \<Rightarrow> string list \<Rightarrow> real \<times> real \<Rightarrow> bool \<Rightarrow> error + source list" where
  "ingest cat extra rhrange rotate_pa =
     (let copied = map (\<lambda>d. fold (\<lambda>f r. if f \<in> set (dtype_names extra) then store_field f (d f) r else r)
                                   (names cat) zeros) (data cat);
          clipped = map (\<lambda>r. set_col ''rhalf'' (clip (cols r ''rhalf'') (fst rhrange) (snd rhrange)) r) copied;
          rotated = (if rotate_pa
                     then map (\<lambda>r. set_col ''pa'' (cols r ''pa'' + (pi / 2 - (if cols r ''pa'' > 0 then 1 else 0) * pi)) r)
                            clipped
                     else clipped)
      in if ''ra'' \<notin> set (names cat) \<or> ''dec'' \<notin> set (names cat) then Inl KeyError
         else Inr (map (\<lambda>(i, r). r\<lparr>source_index := int i\<rparr>) (zip [0..<length rotated] rotated)))"

text \<open>
  The keyword arguments of \<open>__init__\<close>. The dtype and \<open>PAR_COLS\<close> (catalog.py) and the
  projection to scene coordinates (astropy) are taken as given.
\<close>

record init_args =
  arg_target_niter :: int
  arg_maxactive_fraction :: real
  arg_maxactive_per_patch :: int
  arg_nscale :: real
  arg_boundary_radius :: real
  arg_maxradius :: real
  arg_minradius :: real
  arg_rhrange :: "real \<times> real"
  arg_rotate :: bool

definition SuperScene_init ::
  "fits_table \<Rightarrow> dtype \<Rightarrow> string list \<Rightarrow> (real \<times> real \<Rightarrow> real \<times> real) \<Rightarrow> init_args \<Rightarrow> error + superscene" where
  "SuperScene_init cat dt PAR_COLS sky_to_scene args =
     (case ingest cat (float_names dt) (arg_rhrange args) (arg_rotate args) of
        Inl e \<Rightarrow> Inl e
      | Inr sc \<Rightarrow>
          Inr \<lparr>sourcecat = sc,
               cat_dtype = dt,
               scene_coordinates = map (\<lambda>r. sky_to_scene (cols r ''ra'', cols r ''dec'')) sc,
               to_scene = sky_to_scene,
               parameter_columns = PAR_COLS,
               n_sources = length sc,
               n_active = 0,
               n_fixed = 0,
               maxactive_fraction = arg_maxactive_fraction args,
               target_niter = arg_target_niter args,
               maxradius = arg_maxradius args,
               minradius = arg_minradius args,
               maxactive = arg_maxactive_per_patch args,
               boundary_radius = arg_boundary_radius args,
               nscale = 3\<rparr>)"

section \<open>The work queue (class MPIQueue of dispatcher.py)\<close>

text \<open>
  The communicator is modelled by what the parent can observe of it: the largest tag it
  accepts, the tasks sent, and for each child the results that have arrived and are not
  yet received. A send is refused (MPI_ERR_TAG, raised by mpi4py as an exception) unless
  its tag is between 0 and the largest tag; \<open>MPI.ANY_TAG\<close>, a wildcard for receiving, is
  negative. \<open>Iprobe\<close> on a child is true when a result of that child has arrived; \<open>recv\<close>
  takes the oldest one.
\<close>

definition ANY_TAG :: int where
  "ANY_TAG = - 1"

datatype 't request = Request int 't

record ('t, 'r) mpiqueue =
  busy :: "(int \<times> 't request) list"
  idle :: "int list"
  n_children :: int
  tag_ub :: int
  sent :: "(int \<times> 't) list"
  inbox :: "int \<Rightarrow> 'r list"

text \<open>\<open>list(range(n_children + 1))[1:]\<close> is the list of the integers from 1 to \<open>n_children\<close>.\<close>

definition MPIQueue_init :: "int \<Rightarrow> int \<Rightarrow> ('t, 'r) mpiqueue" where
  "MPIQueue_init ub n =
     \<lparr>busy = [], idle = [1..n], n_children = n, tag_ub = ub, sent = [], inbox = (\<lambda>c. [])\<rparr>"

text \<open>
  \<open>submit(task, tag=MPI.ANY_TAG)\<close>: \<open>idle.pop(0)\<close> raises IndexError on an empty list, before
  anything is sent; then \<open>comm.isend\<close> is called, after the child has left \<open>idle\<close>, and the
  child enters \<open>busy\<close> only when the send has been accepted. A tag that is not given is
  the default.
\<close>

definition submit :: "'t \<Rightarrow> int option \<Rightarrow> ('t, 'r) mpiqueue \<Rightarrow> (error + int) \<times> ('t, 'r) mpiqueue" where
  "submit task tag_arg q =
     (let tag = (case tag_arg of None \<Rightarrow> ANY_TAG | Some t \<Rightarrow> t) in
      case idle q of
        [] \<Rightarrow> (Inl IndexError, q)
      | child # rest \<Rightarrow>
          if tag < 0 \<or> tag_ub q < tag then (Inl MPIError, q\<lparr>idle := rest\<rparr>)
          else (Inr child, q\<lparr>idle := rest, sent := sent q @ [(child, task)],
                             busy := busy q @ [(child, Request child task)]\<rparr>))"

text \<open>Python values, for what \<open>collect_one\<close> hands back to its caller.\<close>

datatype ('t, 'r) pyval =
  PInt int | PRequest "'t request" | PResult 'r | PTuple "('t, 'r) pyval list"

definition deliver :: "(int \<times> 'r) list \<Rightarrow> (int \<Rightarrow> 'r list) \<Rightarrow> (int \<Rightarrow> 'r list)" where
  "deliver msgs box = fold (\<lambda>(c, r) b. b(c := b c @ [r])) msgs box"

text \<open>
  The busy wait of \<open>collect_one\<close>. \<open>arrivals t\<close> are the results that arrive before the
  \<open>t\<close>-th probe; the fuel bounds the number of loop steps (a probe, or the restart of the
  \<open>for\<close> loop by \<open>while True\<close>), and \<open>None\<close> is a call that has not returned within them.
\<close>

fun collect_loop ::
  "nat \<Rightarrow> (nat \<Rightarrow> (int \<times> 'r) list) \<Rightarrow> nat \<Rightarrow> nat \<Rightarrow> ('t, 'r) mpiqueue
     \<Rightarrow> (('t, 'r) pyval \<times> ('t, 'r) mpiqueue) option" where
  "collect_loop 0 arrivals t i q = None"
| "collect_loop (Suc fuel) arrivals t i q =
     (if i < length (busy q) then
        (let q1 = q\<lparr>inbox := deliver (arrivals t) (inbox q)\<rparr>;
             child = fst (busy q ! i);
             req = snd (busy q ! i)
         in if inbox q1 child \<noteq> [] then
              Some (PTuple [PTuple [PInt child, PRequest req], PResult (hd (inbox q1 child))],
                    q1\<lparr>inbox := (inbox q1)(child := tl (inbox q1 child)),
                       busy := take i (busy q) @ drop (Suc i) (busy q),
                       idle := idle q @ [child]\<rparr>)
            else collect_loop fuel arrivals (Suc t) (Suc i) q1)
      else collect_loop fuel arrivals t 0 q)"

definition collect_one ::
  "nat \<Rightarrow> (nat \<Rightarrow> (int \<times> 'r) list) \<Rightarrow> ('t, 'r) mpiqueue \<Rightarrow> (('t, 'r) pyval \<times> ('t, 'r) mpiqueue) option" where
  "collect_one fuel arrivals q = collect_loop fuel arrivals 0 0 q"


section \<open>Sequences of calls\<close>

subsection \<open>Calls on the work queue\<close>

datatype ('t, 'r) call = Submit 't "int option" | CollectOne nat "nat \<Rightarrow> (int \<times> 'r) list"

text \<open>
  One call of a sequence in which \<open>submit\<close> is only invoked while a child is idle: a
  \<open>submit\<close> on an empty \<open>idle\<close> list is not part of such a sequence, and the sequence goes
  on after a \<open>collect_one\<close> only once that call has returned. After a \<open>submit\<close> that raised
  in \<open>isend\<close> the sequence goes on from the state the call left.
\<close>

fun call_step :: "('t, 'r) call \<Rightarrow> ('t, 'r) mpiqueue \<Rightarrow> ('t, 'r) mpiqueue option" where
  "call_step (Submit task tag_arg) q =
     (if idle q = [] then None else Some (snd (submit task tag_arg q)))"
| "call_step (CollectOne fuel arrivals) q = map_option snd (collect_one fuel arrivals q)"

text \<open>The states the queue goes through, the first one included.\<close>

fun queue_states :: "('t, 'r) call list \<Rightarrow> ('t, 'r) mpiqueue \<Rightarrow> ('t, 'r) mpiqueue list option" where
  "queue_states [] q = Some [q]"
| "queue_states (c # cs) q =
     (case call_step c q of
        None \<Rightarrow> None
      | Some q' \<Rightarrow> map_option (\<lambda>qs. q # qs) (queue_states cs q'))"

text \<open>The calls that pass a tag the communicator accepts.\<close>

fun tag_accepted :: "int \<Rightarrow> ('t, 'r) call \<Rightarrow> bool" where
  "tag_accepted ub (Submit task tag_arg) =
     (case tag_arg of None \<Rightarrow> False | Some t \<Rightarrow> 0 \<le> t \<and> t \<le> ub)"
| "tag_accepted ub (CollectOne fuel arrivals) = True"

text \<open>The state of the inbox at the \<open>m\<close>-th probe after time \<open>t\<close>.\<close>

definition inbox_after :: "(nat \<Rightarrow> (int \<times> 'r) list) \<Rightarrow> nat \<Rightarrow> nat \<Rightarrow> (int \<Rightarrow> 'r list) \<Rightarrow> (int \<Rightarrow> 'r list)" where
  "inbox_after arrivals t m box = fold (\<lambda>s b. deliver (arrivals s) b) [t..<t + m] box"

subsection \<open>Calls on the catalog\<close>

text \<open>
  The scene together with the checkouts that are outstanding: for each, the
  \<open>source_index\<close> values of the active rows and of the fixed rows that were handed out.
\<close>

record tracked =
  scene :: superscene
  outstanding :: "(int list \<times> int list) list"

definition held :: "int list \<times> int list \<Rightarrow> int set" where
  "held p = set (fst p) \<union> set (snd p)"

fun no_shared_index :: "(int list \<times> int list) list \<Rightarrow> bool" where
  "no_shared_index [] = True"
| "no_shared_index (p # ps) = ((\<forall>p' \<in> set ps. held p \<inter> held p' = {}) \<and> no_shared_index ps)"

text \<open>
  \<open>Checkin k active fixed niter\<close> returns the \<open>k\<close>-th outstanding checkout: the rows carry
  its indices, whatever the worker did to their parameters.
\<close>

datatype scene_call = Checkout "int option" real | Checkin nat rows rows int

fun scene_step :: "scene_call \<Rightarrow> tracked \<Rightarrow> tracked option" where
  "scene_step (Checkout seed_index u) t =
     (case checkout_region seed_index u (scene t) of
        (Inr (Patch reg act fixd), ss') \<Rightarrow>
          Some \<lparr>scene = ss', outstanding = outstanding t @ [(map source_index act, map source_index fixd)]\<rparr>
      | (Inr (NoRegion c), ss') \<Rightarrow> Some (t\<lparr>scene := ss'\<rparr>)
      | (Inl e, ss') \<Rightarrow> Some (t\<lparr>scene := ss'\<rparr>))"
| "scene_step (Checkin k active fixed niter) t =
     (if k < length (outstanding t)
         \<and> map source_index (entries active) = fst (outstanding t ! k)
         \<and> map source_index (entries fixed) = snd (outstanding t ! k)
      then (case checkin_region active fixed niter (scene t) of
              (Inr u, ss') \<Rightarrow>
                Some \<lparr>scene = ss', outstanding = take k (outstanding t) @ drop (Suc k) (outstanding t)\<rparr>
            | (Inl e, ss') \<Rightarrow> None)
      else None)"

fun scene_states :: "scene_call list \<Rightarrow> tracked \<Rightarrow> tracked list option" where
  "scene_states [] t = Some [t]"
| "scene_states (c # cs) t =
     (case scene_step c t of
        None \<Rightarrow> None
      | Some t' \<Rightarrow> map_option (\<lambda>ts. t # ts) (scene_states cs t'))"

text \<open>Row \<open>i\<close> of the catalog carries the index \<open>i\<close>, as \<open>ingest\<close> sets it.\<close>

definition indexed :: "source list \<Rightarrow> bool" where
  "indexed cat = (\<forall>i < length cat. source_index (cat ! i) = int i)"

text \<open>An entry is invalid exactly when an outstanding checkout holds its index.\<close>

definition invalid_iff_held :: "tracked \<Rightarrow> bool" where
  "invalid_iff_held t =
     (\<forall>i < length (sourcecat (scene t)).
        (\<not> is_valid (sourcecat (scene t) ! i)) = (\<exists>p \<in> set (outstanding t). int i \<in> held p))"


subsection \<open>Scenario B: two workers\<close>

text \<open>
  Two submissions with the tag 1, on a communicator whose largest tag is 32767, then a
  collection during which the result of worker 2 arrives.
\<close>

definition scenario_B :: "(string, string) call list" where
  "scenario_B =
     [Submit ''A'' (Some 1), Submit ''B'' (Some 1),
      CollectOne 2 (\<lambda>t. if t = 0 then [(2, ''result_B'')] else [])]"

text \<open>The queue after the two submissions, once the result of worker 2 has arrived.\<close>

definition scenario_B_queue :: "(string, string) mpiqueue" where
  "scenario_B_queue =
     (let q = snd (submit ''B'' (Some 1) (snd (submit ''A'' (Some 1) (MPIQueue_init 32767 2))))
      in q\<lparr>inbox := deliver [(2, ''result_B'')] (inbox q)\<rparr>)"

subsection \<open>Scenario A: five sources on a line\<close>

text \<open>
  Sources at x = 0, 2, 4, 6, 8 with half-light radius 0.1; the sky position is the scene
  position, and every source is valid and inactive. The integer columns have 32 bits.
\<close>

definition int32_dtype :: dtype where
  "int32_dtype = \<lparr>float_names = [], n_iter_bits = 32, n_patch_bits = 32\<rparr>"

definition line_source :: "nat \<Rightarrow> real \<Rightarrow> source" where
  "line_source i x =
     \<lparr>source_index = int i, cols = (\<lambda>f. 0)(''ra'' := x, ''rhalf'' := 1 / 10),
      is_active = False, is_valid = True, n_iter = 0, n_patch = 0\<rparr>"

definition scenario_A :: superscene where
  "scenario_A =
     \<lparr>sourcecat = [line_source 0 0, line_source 1 2, line_source 2 4, line_source 3 6, line_source 4 8],
      cat_dtype = int32_dtype,
      scene_coordinates = [(0, 0), (2, 0), (4, 0), (6, 0), (8, 0)],
      to_scene = (\<lambda>p. p),
      parameter_columns = [''ra'', ''dec'', ''rhalf''],
      n_sources = 5, n_active = 0, n_fixed = 0,
      maxactive_fraction = 1 / 10, target_niter = 200,
      maxradius = 5, minradius = 1, maxactive = 2, boundary_radius = 8, nscale = 3\<rparr>"

text \<open>
  Rows for a check-in on Scenario A, with the dtype of the catalog: one active row for
  index 0, an empty table, and a row for the index 7, which the catalog does not have; and
  a table whose dtype has no \<open>source_index\<close> field.
\<close>

definition returned_rows :: rows where
  "returned_rows = \<lparr>row_names = dtype_names [], entries = [line_source 0 0]\<rparr>"

definition no_rows :: rows where
  "no_rows = \<lparr>row_names = dtype_names [], entries = []\<rparr>"

definition stray_rows :: rows where
  "stray_rows = \<lparr>row_names = dtype_names [], entries = [line_source 7 14]\<rparr>"

definition unindexed_rows :: rows where
  "unindexed_rows = \<lparr>row_names = [''ra'', ''dec'', ''rhalf''], entries = [line_source 0 0]\<rparr>"

text \<open>
  The checkout seeded at source 1 of Scenario A, and the rows its worker returns: source 1
  with a new \<open>ra\<close>, source 0 as it was, and the fixed source 2.
\<close>

definition checked_out :: "nat \<Rightarrow> real \<Rightarrow> source" where
  "checked_out i x = (line_source i x)\<lparr>is_valid := False\<rparr>"

definition scenario_A_out :: superscene where
  "scenario_A_out = snd (checkout_region (Some 1) 0 scenario_A)"

definition active_rows :: rows where
  "active_rows =
     \<lparr>row_names = dtype_names [],
      entries = [set_col ''ra'' (21 / 10) ((checked_out 1 2)\<lparr>is_active := True\<rparr>),
                 (checked_out 0 0)\<lparr>is_active := True\<rparr>]\<rparr>"

definition fixed_rows :: rows where
  "fixed_rows = \<lparr>row_names = dtype_names [], entries = [checked_out 2 4]\<rparr>"


text \<open>
  Two inactive sources of which one has run 100000 iterations and the other none.
\<close>

definition uneven :: superscene where
  "uneven = scenario_A\<lparr>sourcecat := [line_source 0 0, (line_source 1 2)\<lparr>n_iter := 100000\<rparr>],
                        scene_coordinates := [(0, 0), (2, 0)], n_sources := 2\<rparr>"

subsection \<open>A catalog file and the default arguments\<close>

text \<open>
  A file with the columns \<open>ra\<close>, \<open>dec\<close> and \<open>rhalf\<close> only, and the default keyword arguments
  of \<open>__init__\<close>.
\<close>

definition catalog_file :: fits_table where
  "catalog_file =
     \<lparr>names = [''ra'', ''dec'', ''rhalf''],
      data = [(\<lambda>f. 0)(''ra'' := 0, ''rhalf'' := 1 / 10), (\<lambda>f. 0)(''ra'' := 2, ''rhalf'' := 1 / 10)]\<rparr>"

definition default_args :: init_args where
  "default_args =
     \<lparr>arg_target_niter = 200, arg_maxactive_fraction = 1 / 10, arg_maxactive_per_patch = 20,
      arg_nscale = 3, arg_boundary_radius = 8, arg_maxradius = 5, arg_minradius = 1,
      arg_rhrange = (3 / 100, 3 / 10), arg_rotate = True\<rparr>"

subsection \<open>An isolated source\<close>

text \<open>One source, with the default patch parameters of \<open>__init__\<close>.\<close>

definition lone :: superscene where
  "lone =
     \<lparr>sourcecat = [line_source 0 0],
      cat_dtype = int32_dtype,
      scene_coordinates = [(0, 0)],
      to_scene = (\<lambda>p. p),
      parameter_columns = [''ra'', ''dec'', ''rhalf''],
      n_sources = 1, n_active = 0, n_fixed = 0,
      maxactive_fraction = 1 / 10, target_niter = 200,
      maxradius = 5, minradius = 1, maxactive = 20, boundary_radius = 8, nscale = 3\<rparr>"

text \<open>
  The invariant that the sequences keep: the catalog is indexed, the indices that are held
  are catalog positions, and an entry is invalid exactly when it is held.
\<close>

definition scene_inv :: "tracked \<Rightarrow> bool" where
  "scene_inv t =
     (indexed (sourcecat (scene t))
      \<and> (\<forall>p \<in> set (outstanding t). \<forall>i \<in> held p. 0 \<le> i \<and> i < int (length (sourcecat (scene t))))
      \<and> invalid_iff_held t)"


section \<open>Properties of the work queue\<close>

lemma collect_loop_result:
  "collect_loop fuel arrivals t i q = Some (v, q') \<Longrightarrow>
     \<exists>j < length (busy q). busy q' = take j (busy q) @ drop (Suc j) (busy q)
        \<and> idle q' = idle q @ [fst (busy q ! j)] \<and> n_children q' = n_children q
        \<and> tag_ub q' = tag_ub q"
proof (induction fuel arbitrary: t i q)
  case 0
  then show ?case by simp
next
  case (Suc fuel)
  show ?case
  proof (cases "i < length (busy q)")
    case False
    with Suc.prems have "collect_loop fuel arrivals t 0 q = Some (v, q')" by simp
    then show ?thesis by (rule Suc.IH)
  next
    case True
    define q1 where "q1 = q\<lparr>inbox := deliver (arrivals t) (inbox q)\<rparr>"
    show ?thesis
    proof (cases "inbox q1 (fst (busy q ! i)) \<noteq> []")
      case True
      with \<open>i < length (busy q)\<close> Suc.prems show ?thesis
        by (auto simp: q1_def Let_def intro!: exI[of _ i])
    next
      case False
      with \<open>i < length (busy q)\<close> Suc.prems
      have "collect_loop fuel arrivals (Suc t) (Suc i) q1 = Some (v, q')"
        by (simp add: q1_def Let_def)
      from Suc.IH[OF this] show ?thesis by (simp add: q1_def)
    qed
  qed
qed

lemma mset_remove_nth:
  "j < length xs \<Longrightarrow> mset (take j xs @ drop (Suc j) xs) + {#xs ! j#} = mset xs"
proof -
  assume "j < length xs"
  then have "xs = take j xs @ xs ! j # drop (Suc j) xs" by (rule id_take_nth_drop)
  then have "mset xs = mset (take j xs @ xs ! j # drop (Suc j) xs)" by simp
  then show ?thesis by simp
qed

text \<open>
  A call whose send is accepted keeps the worker ids: \<open>submit\<close> moves the first idle id to
  \<open>busy\<close>, and \<open>collect_one\<close> moves one id of \<open>busy\<close> to \<open>idle\<close>.
\<close>

lemma call_step_partition:
  assumes "call_step c q = Some q'"
    and "tag_accepted (tag_ub q) c"
    and "mset (idle q @ map fst (busy q)) = mset [1..n_children q]"
  shows "mset (idle q' @ map fst (busy q')) = mset [1..n_children q'] \<and> n_children q' = n_children q
         \<and> tag_ub q' = tag_ub q"
proof (cases c)
  case (Submit task tag_arg)
  with assms(2) obtain t where t: "tag_arg = Some t" "0 \<le> t" "t \<le> tag_ub q"
    by (cases tag_arg) auto
  with Submit assms(1,3) show ?thesis
    by (cases "idle q") (auto simp: submit_def)
next
  case (CollectOne fuel arrivals)
  with assms(1) obtain v where "collect_loop fuel arrivals 0 0 q = Some (v, q')"
    by (auto simp: collect_one_def)
  from collect_loop_result[OF this] obtain j where j: "j < length (busy q)"
    "busy q' = take j (busy q) @ drop (Suc j) (busy q)"
    "idle q' = idle q @ [fst (busy q ! j)]" "n_children q' = n_children q"
    "tag_ub q' = tag_ub q" by blast
  have "mset (map fst (take j (busy q) @ drop (Suc j) (busy q))) + {#fst (busy q ! j)#}
        = mset (map fst (busy q))"
    using mset_remove_nth[of j "map fst (busy q)"] j(1)
    by (simp add: take_map drop_map)
  then have "mset (idle q' @ map fst (busy q')) = mset (idle q @ map fst (busy q))"
    using j(2,3) by (simp add: ac_simps)
  with assms(3) j(4,5) show ?thesis by simp
qed

lemma queue_states_partition:
  assumes "queue_states calls q = Some qs"
    and "\<forall>c \<in> set calls. tag_accepted (tag_ub q) c"
    and "mset (idle q @ map fst (busy q)) = mset [1..n_children q]"
  shows "\<forall>q' \<in> set qs. mset (idle q' @ map fst (busy q')) = mset [1..n_children q] "
  using assms
proof (induction calls arbitrary: q qs)
  case Nil
  then show ?case by auto
next
  case (Cons c cs)
  from Cons.prems(1) obtain q1 qs1 where s: "call_step c q = Some q1"
    and r: "queue_states cs q1 = Some qs1" and qs: "qs = q # qs1"
    by (auto split: option.splits)
  from Cons.prems(2) have a: "tag_accepted (tag_ub q) c" by simp
  from call_step_partition[OF s a Cons.prems(3)]
  have p: "mset (idle q1 @ map fst (busy q1)) = mset [1..n_children q1]"
    and n: "n_children q1 = n_children q" and u: "tag_ub q1 = tag_ub q"
    by auto
  from Cons.prems(2) u have "\<forall>c \<in> set cs. tag_accepted (tag_ub q1) c" by simp
  from Cons.IH[OF r this p] n Cons.prems(3) qs show ?case by auto
qed

text \<open>
  Along every sequence of \<open>submit\<close> and \<open>collect_one\<close> calls on a fresh queue of \<open>n\<close>
  children in which every \<open>submit\<close> passes a tag that the communicator accepts and is
  invoked while \<open>idle\<close> is non-empty, in every state the queue goes through the worker ids
  in \<open>idle\<close> together with those in \<open>busy\<close> are the ids from 1 to \<open>n\<close>, each exactly once.
\<close>

lemma queue_partition_accepted_tags:
  assumes "queue_states calls (MPIQueue_init ub n) = Some qs"
    and "\<forall>c \<in> set calls. tag_accepted ub c"
  shows "\<forall>q \<in> set qs. mset (idle q @ map fst (busy q)) = mset [1..n]
           \<and> distinct (idle q @ map fst (busy q))"
proof
  fix q assume "q \<in> set qs"
  have "mset (idle (MPIQueue_init ub n :: ('a, 'b) mpiqueue) @ map fst (busy (MPIQueue_init ub n :: ('a, 'b) mpiqueue)))
        = mset [1..n_children (MPIQueue_init ub n :: ('a, 'b) mpiqueue)]"
    by (simp add: MPIQueue_init_def)
  moreover have "\<forall>c \<in> set calls. tag_accepted (tag_ub (MPIQueue_init ub n :: ('a, 'b) mpiqueue)) c"
    using assms(2) by (simp add: MPIQueue_init_def)
  ultimately have m: "mset (idle q @ map fst (busy q)) = mset [1..n]"
    using queue_states_partition[OF assms(1)] \<open>q \<in> set qs\<close>
    by (simp add: MPIQueue_init_def)
  have "distinct [1..n]" by simp
  then have "distinct (idle q @ map fst (busy q))"
    using m by (metis mset_eq_imp_distinct_iff)
  with m show "mset (idle q @ map fst (busy q)) = mset [1..n] \<and> distinct (idle q @ map fst (busy q))"
    by simp
qed

lemma scenario_B_states:
  "map_option (map (\<lambda>q. (idle q, map fst (busy q)))) (queue_states scenario_B (MPIQueue_init 32767 2))
     = Some [([1, 2], []), ([2], [1]), ([], [1, 2]), ([2], [1])]"
  by (simp add: scenario_B_def MPIQueue_init_def submit_def collect_one_def deliver_def upto.simps
       eval_nat_numeral Let_def)

text \<open>
  C7. The invariant fails in the code. \<open>submit\<close> removes the child from \<open>idle\<close> before it
  calls \<open>isend\<close>, and its default tag is \<open>MPI.ANY_TAG\<close>, which no communicator accepts for
  a send: on a fresh queue of two children, \<open>submit(task)\<close> is invoked while \<open>idle\<close> is
  non-empty, raises in \<open>isend\<close>, and leaves worker 1 neither in \<open>idle\<close> nor in \<open>busy\<close>.
\<close>

theorem submit_default_tag_loses_worker:
  "submit task None (MPIQueue_init ub 2 :: ('t, 'r) mpiqueue)
     = (Inl MPIError, (MPIQueue_init ub 2)\<lparr>idle := [2]\<rparr>)
   \<and> queue_states [Submit task None] (MPIQueue_init ub 2 :: ('t, 'r) mpiqueue)
     = Some [MPIQueue_init ub 2, (MPIQueue_init ub 2)\<lparr>idle := [2]\<rparr>]
   \<and> idle ((MPIQueue_init ub 2 :: ('t, 'r) mpiqueue)\<lparr>idle := [2]\<rparr>) = [2]
   \<and> busy ((MPIQueue_init ub 2 :: ('t, 'r) mpiqueue)\<lparr>idle := [2]\<rparr>) = []
   \<and> mset [2] \<noteq> mset [1..2]"
proof -
  have i: "idle (MPIQueue_init ub 2 :: ('t, 'r) mpiqueue) = [1, 2]"
    by (simp add: MPIQueue_init_def upto.simps)
  have b: "busy (MPIQueue_init ub 2 :: ('t, 'r) mpiqueue) = []"
    by (simp add: MPIQueue_init_def)
  have s: "submit task None (MPIQueue_init ub 2 :: ('t, 'r) mpiqueue)
     = (Inl MPIError, (MPIQueue_init ub 2)\<lparr>idle := [2]\<rparr>)"
    by (simp add: submit_def i ANY_TAG_def)
  have m: "mset [2] \<noteq> mset [1..2::int]" by (simp add: upto.simps)
  show ?thesis using s m by (simp add: i b)
qed

text \<open>The same on every queue with an idle child, whatever the largest tag.\<close>

lemma submit_default_tag_raises:
  assumes "idle q \<noteq> []"
  shows "fst (submit task None q) = Inl MPIError
         \<and> idle (snd (submit task None q)) = tl (idle q)
         \<and> busy (snd (submit task None q)) = busy q"
  using assms by (cases "idle q") (simp_all add: submit_def ANY_TAG_def)

lemma deliver_nonempty: "box c \<noteq> [] \<Longrightarrow> deliver msgs box c \<noteq> []"
  unfolding deliver_def
  by (induction msgs arbitrary: box) (auto split: prod.splits)

lemma inbox_after_Suc:
  "inbox_after arr t (Suc m) box = inbox_after arr (Suc t) m (deliver (arr t) box)"
proof -
  have h: "[t..<t + Suc m] = t # [Suc t..<Suc t + m]"
    by (simp add: upt_conv_Cons del: upt_Suc)
  show ?thesis unfolding inbox_after_def h by simp
qed

lemma inbox_after_nonempty: "box c \<noteq> [] \<Longrightarrow> inbox_after arr t m box c \<noteq> []"
proof (induction m arbitrary: t box)
  case 0
  then show ?case by (simp add: inbox_after_def)
next
  case (Suc m)
  then show ?case by (simp add: inbox_after_Suc deliver_nonempty)
qed

lemma collect_loop_finds:
  assumes "j < length (busy q)" "i \<le> j" "j - i < fuel"
    and "\<forall>k. i \<le> k \<and> k < j \<longrightarrow> inbox_after arr t (Suc (k - i)) (inbox q) (fst (busy q ! k)) = []"
    and "inbox_after arr t (Suc (j - i)) (inbox q) (fst (busy q ! j)) \<noteq> []"
  shows "\<exists>q'. collect_loop fuel arr t i q =
            Some (PTuple [PTuple [PInt (fst (busy q ! j)), PRequest (snd (busy q ! j))],
                          PResult (hd (inbox_after arr t (Suc (j - i)) (inbox q) (fst (busy q ! j))))], q')
          \<and> busy q' = take j (busy q) @ drop (Suc j) (busy q)
          \<and> idle q' = idle q @ [fst (busy q ! j)]"
  using assms
proof (induction fuel arbitrary: t i q)
  case 0
  then show ?case by simp
next
  case (Suc fuel)
  have il: "i < length (busy q)" using Suc.prems(1,2) by simp
  define q1 where "q1 = q\<lparr>inbox := deliver (arr t) (inbox q)\<rparr>"
  have one: "inbox_after arr t (Suc 0) (inbox q) = inbox q1"
    by (simp add: inbox_after_def q1_def)
  show ?case
  proof (cases "i = j")
    case True
    with Suc.prems(5) have "inbox q1 (fst (busy q ! j)) \<noteq> []" using one by simp
    then show ?thesis using True il one by (simp add: q1_def Let_def)
  next
    case False
    then have lt: "i < j" using Suc.prems(2) by simp
    with Suc.prems(4) have "inbox_after arr t (Suc (i - i)) (inbox q) (fst (busy q ! i)) = []"
      by blast
    then have nf: "inbox q1 (fst (busy q ! i)) = []" using one by simp
    have step: "collect_loop (Suc fuel) arr t i q = collect_loop fuel arr (Suc t) (Suc i) q1"
      using il nf by (simp add: q1_def Let_def)
    have shift: "\<And>k. Suc i \<le> k \<Longrightarrow>
        inbox_after arr t (Suc (k - i)) (inbox q) = inbox_after arr (Suc t) (Suc (k - Suc i)) (inbox q1)"
    proof -
      fix k assume "Suc i \<le> k"
      then have "Suc (k - i) = Suc (Suc (k - Suc i))" by simp
      then show "inbox_after arr t (Suc (k - i)) (inbox q) = inbox_after arr (Suc t) (Suc (k - Suc i)) (inbox q1)"
        by (simp add: inbox_after_Suc q1_def)
    qed
    have b: "busy q1 = busy q" "idle q1 = idle q" by (simp_all add: q1_def)
    have "\<exists>q'. collect_loop fuel arr (Suc t) (Suc i) q1 =
            Some (PTuple [PTuple [PInt (fst (busy q1 ! j)), PRequest (snd (busy q1 ! j))],
                          PResult (hd (inbox_after arr (Suc t) (Suc (j - Suc i)) (inbox q1) (fst (busy q1 ! j))))], q')
          \<and> busy q' = take j (busy q1) @ drop (Suc j) (busy q1)
          \<and> idle q' = idle q1 @ [fst (busy q1 ! j)]"
    proof (rule Suc.IH)
      show "j < length (busy q1)" using Suc.prems(1) b by simp
      show "Suc i \<le> j" using lt by simp
      show "j - Suc i < fuel" using Suc.prems(3) lt by simp
      show "\<forall>k. Suc i \<le> k \<and> k < j \<longrightarrow>
              inbox_after arr (Suc t) (Suc (k - Suc i)) (inbox q1) (fst (busy q1 ! k)) = []"
        using Suc.prems(4) shift b by (metis Suc_leD)
      show "inbox_after arr (Suc t) (Suc (j - Suc i)) (inbox q1) (fst (busy q1 ! j)) \<noteq> []"
        using Suc.prems(5) shift[of j] lt b by simp
    qed
    then show ?thesis using step shift[of j] lt b by simp
  qed
qed


text \<open>
  C8 (as amended). Whenever some busy worker has a completed result, \<open>collect_one\<close> returns
  within one pass over \<open>busy\<close>; the worker is the first one found complete when probed; the
  value returned is the pair of the popped \<open>busy\<close> entry (the worker id and its request)
  and the oldest result of that worker; the entry is removed from \<open>busy\<close> and the worker id
  appended to \<open>idle\<close>.
\<close>

theorem collect_one_first_complete:
  assumes "\<exists>p \<in> set (busy q). inbox q (fst p) \<noteq> []" and "length (busy q) \<le> fuel"
  shows "\<exists>j q'. j < length (busy q)
       \<and> (\<forall>k<j. inbox_after arr 0 (Suc k) (inbox q) (fst (busy q ! k)) = [])
       \<and> inbox_after arr 0 (Suc j) (inbox q) (fst (busy q ! j)) \<noteq> []
       \<and> collect_one fuel arr q =
            Some (PTuple [PTuple [PInt (fst (busy q ! j)), PRequest (snd (busy q ! j))],
                          PResult (hd (inbox_after arr 0 (Suc j) (inbox q) (fst (busy q ! j))))], q')
       \<and> busy q' = take j (busy q) @ drop (Suc j) (busy q)
       \<and> idle q' = idle q @ [fst (busy q ! j)]"
proof -
  define P where "P j = (j < length (busy q)
      \<and> inbox_after arr 0 (Suc j) (inbox q) (fst (busy q ! j)) \<noteq> [])" for j
  from assms(1) obtain m where m: "m < length (busy q)" "inbox q (fst (busy q ! m)) \<noteq> []"
    by (auto simp: in_set_conv_nth)
  then have "P m" by (simp add: P_def inbox_after_nonempty)
  define j where "j = (LEAST j. P j)"
  have Pj: "P j" unfolding j_def using \<open>P m\<close> by (rule LeastI)
  have least: "\<And>k. k < j \<Longrightarrow> \<not> P k" unfolding j_def by (rule not_less_Least)
  have jl: "j < length (busy q)" using Pj by (simp add: P_def)
  have before: "\<forall>k<j. inbox_after arr 0 (Suc k) (inbox q) (fst (busy q ! k)) = []"
    using least jl by (auto simp: P_def)
  have "\<exists>q'. collect_loop fuel arr 0 0 q =
            Some (PTuple [PTuple [PInt (fst (busy q ! j)), PRequest (snd (busy q ! j))],
                          PResult (hd (inbox_after arr 0 (Suc (j - 0)) (inbox q) (fst (busy q ! j))))], q')
          \<and> busy q' = take j (busy q) @ drop (Suc j) (busy q)
          \<and> idle q' = idle q @ [fst (busy q ! j)]"
  proof (rule collect_loop_finds)
    show "j < length (busy q)" by (rule jl)
    show "0 \<le> j" by simp
    show "j - 0 < fuel" using jl assms(2) by simp
    show "\<forall>k. 0 \<le> k \<and> k < j \<longrightarrow> inbox_after arr 0 (Suc (k - 0)) (inbox q) (fst (busy q ! k)) = []"
      using before by simp
    show "inbox_after arr 0 (Suc (j - 0)) (inbox q) (fst (busy q ! j)) \<noteq> []"
      using Pj by (simp add: P_def)
  qed
  then show ?thesis using jl before Pj by (auto simp: collect_one_def P_def)
qed

lemma scenario_B_queue_simps:
  "busy scenario_B_queue = [(1, Request 1 ''A''), (2, Request 2 ''B'')]"
  "idle scenario_B_queue = []"
  "inbox scenario_B_queue 1 = []"
  "inbox scenario_B_queue 2 = [''result_B'']"
  by (simp_all add: scenario_B_queue_def submit_def MPIQueue_init_def deliver_def upto.simps Let_def)

text \<open>
  In Scenario B the value returned is \<open>((2, request), result_B)\<close>, not \<open>(2, result_B)\<close>.
\<close>

theorem collect_one_pair_counterexample:
  "map_option fst (collect_one 2 (\<lambda>t. []) scenario_B_queue)
     = Some (PTuple [PTuple [PInt 2, PRequest (Request 2 ''B'')], PResult ''result_B''])
   \<and> map_option fst (collect_one 2 (\<lambda>t. []) scenario_B_queue)
     \<noteq> Some (PTuple [PInt 2, PResult ''result_B''])"
  by (simp add: collect_one_def scenario_B_queue_simps deliver_def eval_nat_numeral Let_def)


lemma fold_ignore: "fold (\<lambda>s b. b) xs box = box"
  by (induction xs) simp_all

lemma inbox_after_no_arrivals: "inbox_after (\<lambda>t. []) t m box = box"
  by (simp add: inbox_after_def deliver_def fold_ignore)

theorem collect_one_first_complete_witness:
  "(\<exists>p \<in> set (busy scenario_B_queue). inbox scenario_B_queue (fst p) \<noteq> [])
   \<and> length (busy scenario_B_queue) \<le> 2
   \<and> (\<exists>q'. collect_one 2 (\<lambda>t. []) scenario_B_queue
              = Some (PTuple [PTuple [PInt 2, PRequest (Request 2 ''B'')], PResult ''result_B''], q')
          \<and> map fst (busy q') = [1] \<and> idle q' = [2])"
proof -
  have h1: "\<exists>p \<in> set (busy scenario_B_queue). inbox scenario_B_queue (fst p) \<noteq> []"
    by (simp add: scenario_B_queue_simps)
  have h2: "length (busy scenario_B_queue) \<le> 2"
    by (simp add: scenario_B_queue_simps)
  from collect_one_first_complete[OF h1 h2, of "\<lambda>t. []"] obtain j q' where
    j: "j < length (busy scenario_B_queue)"
    and found: "inbox_after (\<lambda>t. []) 0 (Suc j) (inbox scenario_B_queue) (fst (busy scenario_B_queue ! j)) \<noteq> []"
    and ret: "collect_one 2 (\<lambda>t. []) scenario_B_queue =
            Some (PTuple [PTuple [PInt (fst (busy scenario_B_queue ! j)), PRequest (snd (busy scenario_B_queue ! j))],
                          PResult (hd (inbox_after (\<lambda>t. []) 0 (Suc j) (inbox scenario_B_queue)
                                         (fst (busy scenario_B_queue ! j))))], q')"
    and b: "busy q' = take j (busy scenario_B_queue) @ drop (Suc j) (busy scenario_B_queue)"
    and i: "idle q' = idle scenario_B_queue @ [fst (busy scenario_B_queue ! j)]"
    by blast
  have "j = 0 \<or> j = 1" using j by (auto simp: scenario_B_queue_simps)
  moreover have "inbox_after (\<lambda>t. []) 0 (Suc 0) (inbox scenario_B_queue) 1 = []"
    by (simp add: inbox_after_no_arrivals scenario_B_queue_simps)
  ultimately have j1: "j = 1"
    using found by (auto simp: scenario_B_queue_simps)
  show ?thesis using h1 h2 ret b i
    by (simp add: j1 inbox_after_no_arrivals scenario_B_queue_simps)
qed


section \<open>Properties of the catalog\<close>

subsection \<open>Index-array assignment\<close>

lemma assign_const_length [simp]: "length (assign_const g inds a) = length a"
  unfolding assign_const_def by (induction inds arbitrary: a) auto

lemma assign_vals_length [simp]: "length (assign_vals g inds vals a) = length a"
  unfolding assign_vals_def
proof (induction inds arbitrary: a vals)
  case Nil
  then show ?case by simp
next
  case (Cons i inds)
  then show ?case by (cases vals) auto
qed

lemma assign_add_length [simp]: "length (assign_add w get put d inds a) = length a"
  by (simp add: assign_add_def)

lemma assign_const_nth:
  assumes "\<And>x. g (g x) = g x" "j < length a"
  shows "assign_const g inds a ! j = (if j \<in> set inds then g (a ! j) else a ! j)"
  using assms(2) unfolding assign_const_def
proof (induction inds arbitrary: a)
  case Nil
  then show ?case by simp
next
  case (Cons i inds)
  then show ?case
    by (cases "i < length a") (auto simp: assms(1) nth_list_update)
qed

lemma assign_vals_nth_notin:
  "j \<notin> set inds \<Longrightarrow> assign_vals g inds vals a ! j = a ! j"
  unfolding assign_vals_def
proof (induction inds arbitrary: a vals)
  case Nil
  then show ?case by simp
next
  case (Cons i inds)
  then show ?case by (cases vals) (auto simp: nth_list_update)
qed

lemma assign_vals_nth_in:
  assumes "distinct inds" "length vals = length inds" "k < length inds" "inds ! k < length a"
  shows "assign_vals g inds vals a ! (inds ! k) = g (vals ! k) (a ! (inds ! k))"
  using assms
proof (induction inds arbitrary: a vals k)
  case Nil
  then show ?case by simp
next
  case (Cons i inds)
  obtain v vs where vals: "vals = v # vs" using Cons.prems(2) by (cases vals) auto
  have step: "assign_vals g (i # inds) (v # vs) a = assign_vals g inds vs (a[i := g v (a ! i)])"
    by (simp add: assign_vals_def)
  show ?case
  proof (cases k)
    case 0
    have "i \<notin> set inds" using Cons.prems(1) by simp
    then show ?thesis using Cons.prems 0
      by (simp add: vals step assign_vals_nth_notin)
  next
    case (Suc k')
    have ne: "inds ! k' \<noteq> i" using Cons.prems(1,3) Suc by auto
    have "assign_vals g inds vs (a[i := g v (a ! i)]) ! (inds ! k')
          = g (vs ! k') (a[i := g v (a ! i)] ! (inds ! k'))"
      using Cons.prems Suc vals by (intro Cons.IH) auto
    then show ?thesis using Suc ne by (simp add: vals step)
  qed
qed

lemma assign_add_nth:
  assumes "distinct inds" "\<forall>i \<in> set inds. i < length a" "j < length a"
  shows "assign_add w get put d inds a ! j
         = (if j \<in> set inds then put (wrap w (get (a ! j) + d)) (a ! j) else a ! j)"
proof (cases "j \<in> set inds")
  case False
  then show ?thesis by (simp add: assign_add_def assign_vals_nth_notin)
next
  case True
  then obtain k where k: "k < length inds" "inds ! k = j" by (auto simp: in_set_conv_nth)
  have "assign_vals put inds (map (\<lambda>i. wrap w (get (a ! i) + d)) inds) a ! (inds ! k)
        = put (map (\<lambda>i. wrap w (get (a ! i) + d)) inds ! k) (a ! (inds ! k))"
    using assms k by (intro assign_vals_nth_in) auto
  then show ?thesis using True k by (simp add: assign_add_def)
qed

text \<open>A sum that fits the width of the column is stored as it is.\<close>

lemma wrap_fits: "fits w x \<Longrightarrow> wrap w x = x"
proof -
  assume f: "fits w x"
  then obtain v where w: "w = Suc v" by (cases w) (auto simp: fits_def)
  have p: "(2::int) ^ w = 2 * 2 ^ v" by (simp add: w)
  from f have b: "0 \<le> x + 2 ^ v" "x + 2 ^ v < 2 * 2 ^ v" by (auto simp: fits_def w)
  then have "(x + 2 ^ v) mod (2 * 2 ^ v) = x + 2 ^ v" by (intro mod_pos_pos_trivial)
  then show ?thesis by (simp add: wrap_def p w)
qed

lemma wrap_32: "wrap 32 x = (x + 2147483648) mod 4294967296 - 2147483648"
  by (simp add: wrap_def)

subsection \<open>The loop over the parameter columns\<close>

lemma store_field_parameter: "f \<notin> set bookkeeping \<Longrightarrow> store_field f = set_col f"
  by (auto simp: store_field_def bookkeeping_def fun_eq_iff)

lemma get_field_parameter: "f \<notin> set bookkeeping \<Longrightarrow> get_field f r = cols r f"
  by (auto simp: get_field_def bookkeeping_def)

lemma write_columns_length [simp]:
  "length (write_columns fs inds rs cat) = length cat"
  unfolding write_columns_def by (induction fs arbitrary: cat) auto

lemma write_columns_nth_notin:
  "j \<notin> set inds \<Longrightarrow> write_columns fs inds rs cat ! j = cat ! j"
  unfolding write_columns_def
  by (induction fs arbitrary: cat) (auto simp: assign_vals_nth_notin)

lemma write_columns_nth_in:
  assumes "distinct inds" "length rs = length inds" "k < length inds" "inds ! k < length cat"
    and "set fs \<inter> set bookkeeping = {}"
  shows "write_columns fs inds rs cat ! (inds ! k)
         = (cat ! (inds ! k))\<lparr>cols := (\<lambda>f. if f \<in> set fs then cols (rs ! k) f
                                           else cols (cat ! (inds ! k)) f)\<rparr>"
  using assms(4,5)
proof (induction fs arbitrary: cat)
  case Nil
  then show ?case by (simp add: write_columns_def)
next
  case (Cons f fs)
  from Cons.prems(2) have fb: "f \<notin> set bookkeeping" and fsb: "set fs \<inter> set bookkeeping = {}"
    by auto
  define c where "c = assign_vals (set_col f) inds (map (\<lambda>r. cols r f) rs) cat"
  have len: "inds ! k < length c" using Cons.prems by (simp add: c_def)
  have at: "c ! (inds ! k) = set_col f (cols (rs ! k) f) (cat ! (inds ! k))"
    unfolding c_def using assms(1,2,3) Cons.prems
    by (subst assign_vals_nth_in) auto
  have g: "map (get_field f) rs = map (\<lambda>r. cols r f) rs"
    using fb by (simp add: get_field_parameter)
  have "write_columns (f # fs) inds rs cat = write_columns fs inds rs c"
    by (simp add: write_columns_def c_def store_field_parameter[OF fb] g)
  then have "write_columns (f # fs) inds rs cat ! (inds ! k)
      = (c ! (inds ! k))\<lparr>cols := (\<lambda>g. if g \<in> set fs then cols (rs ! k) g
                                           else cols (c ! (inds ! k)) g)\<rparr>"
    using Cons.IH[OF len fsb] by simp
  also have "\<dots> = (cat ! (inds ! k))\<lparr>cols := (\<lambda>g. if g \<in> set (f # fs) then cols (rs ! k) g
                                           else cols (cat ! (inds ! k)) g)\<rparr>"
    by (auto simp: at set_col_def fun_eq_iff)
  finally show ?case .
qed

lemma update_parameters_length [simp]:
  "length (snd (update_parameters fs active nms inds cat)) = length cat"
  by (induction fs active nms inds cat rule: update_parameters.induct)
     (auto split: sum.splits)

text \<open>The loop on indices inside the catalog: it stops at the first missing column.\<close>

lemma update_parameters_complete:
  assumes "fancy_index (length cat) inds = Inr ai"
    and "\<forall>f \<in> set fs. f \<in> set (row_names active) \<and> f \<in> set nms"
  shows "update_parameters fs active nms inds cat = (None, write_columns fs ai (entries active) cat)"
  using assms
proof (induction fs arbitrary: cat)
  case Nil
  then show ?case by (simp add: write_columns_def)
next
  case (Cons f fs)
  define c where "c = assign_vals (store_field f) ai (map (get_field f) (entries active)) cat"
  have l: "fancy_index (length c) inds = Inr ai" using Cons.prems(1) by (simp add: c_def)
  have "update_parameters fs active nms inds c = (None, write_columns fs ai (entries active) c)"
    using Cons.prems(2) by (intro Cons.IH[OF l]) simp
  then show ?case using Cons.prems by (simp add: c_def write_columns_def)
qed

lemma update_parameters_missing:
  assumes "fancy_index (length cat) inds = Inr ai"
    and "\<exists>f \<in> set fs. f \<notin> set (row_names active) \<or> f \<notin> set nms"
  shows "fst (update_parameters fs active nms inds cat) = Some ValueError"
  using assms
proof (induction fs arbitrary: cat)
  case Nil
  then show ?case by simp
next
  case (Cons f fs)
  show ?case
  proof (cases "f \<notin> set (row_names active) \<or> f \<notin> set nms")
    case True
    then show ?thesis by auto
  next
    case False
    define c where "c = assign_vals (store_field f) ai (map (get_field f) (entries active)) cat"
    have l: "fancy_index (length c) inds = Inr ai" using Cons.prems(1) by (simp add: c_def)
    have "fst (update_parameters fs active nms inds c) = Some ValueError"
      using Cons.prems(2) False by (intro Cons.IH[OF l]) auto
    then show ?thesis using False Cons.prems(1) by (simp add: c_def)
  qed
qed

text \<open>The loop on an index outside the catalog: it writes nothing.\<close>

lemma update_parameters_out_of_range:
  assumes "fancy_index (length cat) inds = Inl e"
  shows "snd (update_parameters fs active nms inds cat) = cat
       \<and> fst (update_parameters fs active nms inds cat) \<in> {None, Some ValueError, Some e}"
  using assms by (cases fs) auto

subsection \<open>checkin_region\<close>

lemma norm_index_nonneg:
  "norm_index n i = Some j \<Longrightarrow> 0 \<le> i \<Longrightarrow> j = nat i \<and> nat i < n"
  by (auto simp: norm_index_def split: if_splits)

lemma norm_index_less: "norm_index n i = Some j \<Longrightarrow> j < n"
  by (auto simp: norm_index_def split: if_splits)

lemma fancy_index_Inr:
  "fancy_index n inds = Inr js \<Longrightarrow>
     length js = length inds \<and> (\<forall>j \<in> set js. j < n)
     \<and> (\<forall>k < length inds. norm_index n (inds ! k) = Some (js ! k))"
  by (auto simp: fancy_index_def norm_index_less split: if_splits)

lemma fancy_index_nonneg:
  assumes "fancy_index n inds = Inr js" "\<forall>i \<in> set inds. 0 \<le> i"
  shows "js = map nat inds"
proof (rule nth_equalityI)
  from fancy_index_Inr[OF assms(1)] have l: "length js = length inds"
    and nk: "\<forall>k < length inds. norm_index n (inds ! k) = Some (js ! k)" by auto
  show "length js = length (map nat inds)" using l by simp
  fix k assume "k < length js"
  then have k: "k < length inds" using l by simp
  then have "norm_index n (inds ! k) = Some (js ! k)" using nk by simp
  moreover have "0 \<le> inds ! k" using assms(2) k by simp
  ultimately have "js ! k = nat (inds ! k)" using norm_index_nonneg by blast
  then show "js ! k = map nat inds ! k" using k by simp
qed

lemma fancy_index_eq_Inl:
  "(fancy_index n inds = Inl e) = (e = IndexError \<and> (\<exists>i \<in> set inds. norm_index n i = None))"
  by (auto simp: fancy_index_def)

lemma fancy_index_in_catalog:
  "\<forall>i \<in> set inds. norm_index n i \<noteq> None \<Longrightarrow>
     fancy_index n inds = Inr (map (\<lambda>i. the (norm_index n i)) inds)"
  by (auto simp: fancy_index_def)

text \<open>The catalog that a successful check-in leaves, row by row.\<close>

lemma checkin_rows:
  fixes cat :: "source list" and fs :: "string list" and d :: int and rs :: "source list" and ai :: "nat list"
    and wi :: nat and wp :: nat
  assumes "distinct ai" "\<forall>i \<in> set ai. i < length cat" "length rs = length ai" "j < length cat"
    and "set fs \<inter> set bookkeeping = {}"
  defines "c5 \<equiv>
     assign_const (\<lambda>r. r\<lparr>is_valid := True\<rparr>) ai
       (assign_add wp n_patch (\<lambda>v r. r\<lparr>n_patch := v\<rparr>) 1 ai
         (assign_const (\<lambda>r. r\<lparr>is_active := False\<rparr>) ai
           (assign_add wi n_iter (\<lambda>v r. r\<lparr>n_iter := v\<rparr>) d ai
             (write_columns fs ai rs cat))))"
  shows "j \<notin> set ai \<Longrightarrow> c5 ! j = cat ! j"
    and "\<And>k. k < length ai \<Longrightarrow> ai ! k = j \<Longrightarrow>
           c5 ! j = (cat ! j)\<lparr>cols := (\<lambda>f. if f \<in> set fs then cols (rs ! k) f else cols (cat ! j) f),
                                n_iter := wrap wi (n_iter (cat ! j) + d), is_active := False,
                                n_patch := wrap wp (n_patch (cat ! j) + 1), is_valid := True\<rparr>"
proof -
  define c1 where "c1 = write_columns fs ai rs cat"
  define c2 where "c2 = assign_add wi n_iter (\<lambda>v r. r\<lparr>n_iter := v\<rparr>) d ai c1"
  define c3 where "c3 = assign_const (\<lambda>r. r\<lparr>is_active := False\<rparr>) ai c2"
  define c4 where "c4 = assign_add wp n_patch (\<lambda>v r. r\<lparr>n_patch := v\<rparr>) 1 ai c3"
  have c5: "c5 = assign_const (\<lambda>r. r\<lparr>is_valid := True\<rparr>) ai c4"
    by (simp add: c5_def c4_def c3_def c2_def c1_def)
  have l1: "length c1 = length cat" by (simp add: c1_def)
  have l2: "length c2 = length cat" by (simp add: c2_def l1)
  have l3: "length c3 = length cat" by (simp add: c3_def l2)
  have l4: "length c4 = length cat" by (simp add: c4_def l3)
  have n2: "c2 ! j = (if j \<in> set ai then (c1 ! j)\<lparr>n_iter := wrap wi (n_iter (c1 ! j) + d)\<rparr> else c1 ! j)"
    unfolding c2_def using assms(1,2,4) l1 by (subst assign_add_nth) auto
  have n3: "c3 ! j = (if j \<in> set ai then (c2 ! j)\<lparr>is_active := False\<rparr> else c2 ! j)"
    unfolding c3_def using assms(4) l2 by (subst assign_const_nth) auto
  have n4: "c4 ! j = (if j \<in> set ai then (c3 ! j)\<lparr>n_patch := wrap wp (n_patch (c3 ! j) + 1)\<rparr> else c3 ! j)"
    unfolding c4_def using assms(1,2,4) l3 by (subst assign_add_nth) auto
  have n5: "c5 ! j = (if j \<in> set ai then (c4 ! j)\<lparr>is_valid := True\<rparr> else c4 ! j)"
    unfolding c5 using assms(4) l4 by (subst assign_const_nth) auto
  show "j \<notin> set ai \<Longrightarrow> c5 ! j = cat ! j"
    by (simp add: n5 n4 n3 n2 c1_def write_columns_nth_notin)
  fix k assume k: "k < length ai" "ai ! k = j"
  then have jin: "j \<in> set ai" by auto
  have "c1 ! (ai ! k) = (cat ! (ai ! k))\<lparr>cols := (\<lambda>f. if f \<in> set fs then cols (rs ! k) f
                                           else cols (cat ! (ai ! k)) f)\<rparr>"
    unfolding c1_def using assms(1,3,4,5) k by (intro write_columns_nth_in) auto
  then have c1j: "c1 ! j = (cat ! j)\<lparr>cols := (\<lambda>f. if f \<in> set fs then cols (rs ! k) f
                                           else cols (cat ! j) f)\<rparr>"
    unfolding k(2) .
  show "c5 ! j = (cat ! j)\<lparr>cols := (\<lambda>f. if f \<in> set fs then cols (rs ! k) f else cols (cat ! j) f),
                                n_iter := wrap wi (n_iter (cat ! j) + d), is_active := False,
                                n_patch := wrap wp (n_patch (cat ! j) + 1), is_valid := True\<rparr>"
    using jin by (simp add: n5 n4 n3 n2 c1j)
qed

text \<open>The result of a check-in that meets none of the conditions under which it raises.\<close>

lemma checkin_region_complete:
  assumes "''source_index'' \<in> set (row_names active)" "''source_index'' \<in> set (row_names fixed)"
    and "\<forall>f \<in> set (parameter_columns ss).
           f \<in> set (row_names active) \<and> f \<in> set (dtype_names (float_names (cat_dtype ss)))"
    and "fancy_index (length (sourcecat ss)) (map source_index (entries active)) = Inr ai"
    and "fancy_index (length (sourcecat ss)) (map source_index (entries fixed)) = Inr fi"
    and "int64 d"
  shows "checkin_region active fixed d ss =
     (Inr (), ss\<lparr>sourcecat :=
           assign_const (\<lambda>r. r\<lparr>is_valid := True\<rparr>) fi
             (assign_const (\<lambda>r. r\<lparr>is_valid := True\<rparr>) ai
               (assign_add (n_patch_bits (cat_dtype ss)) n_patch (\<lambda>v r. r\<lparr>n_patch := v\<rparr>) 1 ai
                 (assign_const (\<lambda>r. r\<lparr>is_active := False\<rparr>) ai
                   (assign_add (n_iter_bits (cat_dtype ss)) n_iter (\<lambda>v r. r\<lparr>n_iter := v\<rparr>) d ai
                     (write_columns (parameter_columns ss) ai (entries active) (sourcecat ss)))))),
          n_active := n_active ss - int (length (entries active)),
          n_fixed := n_fixed ss - int (length (entries fixed))\<rparr>)"
proof -
  have u: "update_parameters (parameter_columns ss) active
             (dtype_names (float_names (cat_dtype ss))) (map source_index (entries active)) (sourcecat ss)
           = (None, write_columns (parameter_columns ss) ai (entries active) (sourcecat ss))"
    using assms(4,3) by (rule update_parameters_complete)
  show ?thesis
    using assms(1,2,6)
    by (simp add: checkin_region_def column_source_index_def u assms(4,5) Let_def)
qed

lemma checkin_region_Inr:
  assumes "checkin_region active fixed d ss = (Inr u, ss')"
  shows "\<exists>ai fi. ''source_index'' \<in> set (row_names active) \<and> ''source_index'' \<in> set (row_names fixed)
     \<and> (\<forall>f \<in> set (parameter_columns ss).
           f \<in> set (row_names active) \<and> f \<in> set (dtype_names (float_names (cat_dtype ss))))
     \<and> int64 d
     \<and> fancy_index (length (sourcecat ss)) (map source_index (entries active)) = Inr ai
     \<and> fancy_index (length (sourcecat ss)) (map source_index (entries fixed)) = Inr fi
     \<and> ss' = ss\<lparr>sourcecat :=
           assign_const (\<lambda>r. r\<lparr>is_valid := True\<rparr>) fi
             (assign_const (\<lambda>r. r\<lparr>is_valid := True\<rparr>) ai
               (assign_add (n_patch_bits (cat_dtype ss)) n_patch (\<lambda>v r. r\<lparr>n_patch := v\<rparr>) 1 ai
                 (assign_const (\<lambda>r. r\<lparr>is_active := False\<rparr>) ai
                   (assign_add (n_iter_bits (cat_dtype ss)) n_iter (\<lambda>v r. r\<lparr>n_iter := v\<rparr>) d ai
                     (write_columns (parameter_columns ss) ai (entries active) (sourcecat ss)))))),
          n_active := n_active ss - int (length (entries active)),
          n_fixed := n_fixed ss - int (length (entries fixed))\<rparr>"
proof -
  let ?A = "map source_index (entries active)"
  let ?F = "map source_index (entries fixed)"
  let ?U = "update_parameters (parameter_columns ss) active
              (dtype_names (float_names (cat_dtype ss))) ?A (sourcecat ss)"
  obtain e c1 where up: "?U = (e, c1)" by (cases ?U) auto
  have l1: "length c1 = length (sourcecat ss)"
    using update_parameters_length[of "parameter_columns ss" active
            "dtype_names (float_names (cat_dtype ss))" ?A "sourcecat ss"] up by simp
  from assms have sa: "''source_index'' \<in> set (row_names active)"
    and sf: "''source_index'' \<in> set (row_names fixed)"
    by (auto simp: checkin_region_def column_source_index_def split: if_splits)
  from assms sa sf up have e: "e = None"
    by (cases e) (auto simp: checkin_region_def column_source_index_def)
  from assms sa sf up e obtain ai where
    fa: "fancy_index (length (sourcecat ss)) ?A = Inr ai"
    by (cases "fancy_index (length (sourcecat ss)) ?A")
       (auto simp: checkin_region_def column_source_index_def l1)
  from assms sa sf up e fa have d: "int64 d"
    by (cases "int64 d") (auto simp: checkin_region_def column_source_index_def l1)
  from assms sa sf up e fa d obtain fi where
    ff: "fancy_index (length (sourcecat ss)) ?F = Inr fi"
    by (cases "fancy_index (length (sourcecat ss)) ?F")
       (auto simp: checkin_region_def column_source_index_def l1 Let_def)
  have pc: "\<forall>f \<in> set (parameter_columns ss).
           f \<in> set (row_names active) \<and> f \<in> set (dtype_names (float_names (cat_dtype ss)))"
  proof (rule ccontr)
    assume "\<not> ?thesis"
    then have "\<exists>f \<in> set (parameter_columns ss).
           f \<notin> set (row_names active) \<or> f \<notin> set (dtype_names (float_names (cat_dtype ss)))"
      by blast
    from update_parameters_missing[OF fa this] up e show False by simp
  qed
  from checkin_region_complete[OF sa sf pc fa ff d] assms sa sf pc d fa ff show ?thesis
    by simp
qed

lemma distinct_map_nat:
  "distinct xs \<Longrightarrow> \<forall>x \<in> set xs. (0::int) \<le> x \<Longrightarrow> distinct (map nat xs)"
  by (auto simp: distinct_map inj_on_def eq_nat_nat_iff)

text \<open>
  C4 (as amended). After a successful \<open>checkin_region(active, fixed, d)\<close> of checked-out rows
  (indices that are catalog positions, the active ones pairwise different, none both
  active and fixed), when no parameter column is one of the dispatcher's own columns: the
  catalog row of each active index has the parameter columns overwritten with the row's
  values, \<open>n_iter\<close> increased by \<open>d\<close> and \<open>n_patch\<close> increased by 1, both wrapped to the width
  of their column and hence exact when the sum fits the width, \<open>is_active\<close> false and
  \<open>is_valid\<close> true, and nothing else changed; the catalog row of each fixed index has
  \<open>is_valid\<close> true and nothing else changed.
\<close>

theorem checkin_effect:
  assumes ok: "checkin_region active fixed d ss = (Inr (), ss')"
    and nonneg: "\<forall>r \<in> set (entries active) \<union> set (entries fixed). 0 \<le> source_index r"
    and dist: "distinct (map source_index (entries active))"
    and disj: "source_index ` set (entries active) \<inter> source_index ` set (entries fixed) = {}"
    and par: "set (parameter_columns ss) \<inter> set bookkeeping = {}"
  shows "(\<forall>r \<in> set (entries active).
            nat (source_index r) < length (sourcecat ss)
            \<and> sourcecat ss' ! nat (source_index r)
              = (sourcecat ss ! nat (source_index r))
                  \<lparr>cols := (\<lambda>f. if f \<in> set (parameter_columns ss) then cols r f
                                 else cols (sourcecat ss ! nat (source_index r)) f),
                   n_iter := wrap (n_iter_bits (cat_dtype ss))
                               (n_iter (sourcecat ss ! nat (source_index r)) + d),
                   is_active := False,
                   n_patch := wrap (n_patch_bits (cat_dtype ss))
                                (n_patch (sourcecat ss ! nat (source_index r)) + 1),
                   is_valid := True\<rparr>
            \<and> (fits (n_iter_bits (cat_dtype ss)) (n_iter (sourcecat ss ! nat (source_index r)) + d)
                 \<longrightarrow> n_iter (sourcecat ss' ! nat (source_index r))
                      = n_iter (sourcecat ss ! nat (source_index r)) + d)
            \<and> (fits (n_patch_bits (cat_dtype ss)) (n_patch (sourcecat ss ! nat (source_index r)) + 1)
                 \<longrightarrow> n_patch (sourcecat ss' ! nat (source_index r))
                      = n_patch (sourcecat ss ! nat (source_index r)) + 1))
       \<and> (\<forall>r \<in> set (entries fixed).
            nat (source_index r) < length (sourcecat ss)
            \<and> sourcecat ss' ! nat (source_index r)
              = (sourcecat ss ! nat (source_index r))\<lparr>is_valid := True\<rparr>)"
proof -
  let ?cat = "sourcecat ss"
  let ?A = "map source_index (entries active)"
  let ?F = "map source_index (entries fixed)"
  let ?wi = "n_iter_bits (cat_dtype ss)"
  let ?wp = "n_patch_bits (cat_dtype ss)"
  from checkin_region_Inr[OF ok] obtain ai fi where
    fa: "fancy_index (length ?cat) ?A = Inr ai" and ff: "fancy_index (length ?cat) ?F = Inr fi"
    and ss': "ss' = ss\<lparr>sourcecat :=
           assign_const (\<lambda>r. r\<lparr>is_valid := True\<rparr>) fi
             (assign_const (\<lambda>r. r\<lparr>is_valid := True\<rparr>) ai
               (assign_add ?wp n_patch (\<lambda>v r. r\<lparr>n_patch := v\<rparr>) 1 ai
                 (assign_const (\<lambda>r. r\<lparr>is_active := False\<rparr>) ai
                   (assign_add ?wi n_iter (\<lambda>v r. r\<lparr>n_iter := v\<rparr>) d ai
                     (write_columns (parameter_columns ss) ai (entries active) ?cat))))),
          n_active := n_active ss - int (length (entries active)),
          n_fixed := n_fixed ss - int (length (entries fixed))\<rparr>"
    by blast
  define c5 where "c5 = assign_const (\<lambda>r. r\<lparr>is_valid := True\<rparr>) ai
               (assign_add ?wp n_patch (\<lambda>v r. r\<lparr>n_patch := v\<rparr>) 1 ai
                 (assign_const (\<lambda>r. r\<lparr>is_active := False\<rparr>) ai
                   (assign_add ?wi n_iter (\<lambda>v r. r\<lparr>n_iter := v\<rparr>) d ai
                     (write_columns (parameter_columns ss) ai (entries active) ?cat))))"
  have cat': "sourcecat ss' = assign_const (\<lambda>r. r\<lparr>is_valid := True\<rparr>) fi c5"
    by (simp add: ss' c5_def)
  have l5: "length c5 = length ?cat" by (simp add: c5_def)
  have ai: "ai = map nat ?A" using fa nonneg by (intro fancy_index_nonneg) auto
  have fi: "fi = map nat ?F" using ff nonneg by (intro fancy_index_nonneg) auto
  have dai: "distinct ai" unfolding ai using dist nonneg by (intro distinct_map_nat) auto
  have bai: "\<forall>i \<in> set ai. i < length ?cat" using fancy_index_Inr[OF fa] by simp
  have bfi: "\<forall>i \<in> set fi. i < length ?cat" using fancy_index_Inr[OF ff] by simp
  have lai: "length (entries active) = length ai" by (simp add: ai)
  have final: "\<And>j. j < length ?cat \<Longrightarrow>
      sourcecat ss' ! j = (if j \<in> set fi then (c5 ! j)\<lparr>is_valid := True\<rparr> else c5 ! j)"
    unfolding cat' using l5 by (subst assign_const_nth) auto
  have sep: "\<And>a f. a \<in> set (entries active) \<Longrightarrow> f \<in> set (entries fixed)
       \<Longrightarrow> nat (source_index a) \<noteq> nat (source_index f)"
  proof
    fix a f assume a: "a \<in> set (entries active)" and f: "f \<in> set (entries fixed)"
      and e: "nat (source_index a) = nat (source_index f)"
    have "0 \<le> source_index a" "0 \<le> source_index f" using nonneg a f by auto
    with e have "source_index a = source_index f" by simp
    with a f disj show False by blast
  qed
  have act: "nat (source_index r) < length ?cat
      \<and> sourcecat ss' ! nat (source_index r)
              = (?cat ! nat (source_index r))
                  \<lparr>cols := (\<lambda>f. if f \<in> set (parameter_columns ss) then cols r f
                                 else cols (?cat ! nat (source_index r)) f),
                   n_iter := wrap ?wi (n_iter (?cat ! nat (source_index r)) + d),
                   is_active := False,
                   n_patch := wrap ?wp (n_patch (?cat ! nat (source_index r)) + 1),
                   is_valid := True\<rparr>"
    if r: "r \<in> set (entries active)" for r
  proof -
    from r obtain k where k: "k < length (entries active)" "entries active ! k = r"
      by (auto simp: in_set_conv_nth)
    let ?j = "nat (source_index r)"
    have jk: "ai ! k = ?j" using k by (simp add: ai)
    have kl: "k < length ai" using k lai by simp
    have jl: "?j < length ?cat" using bai kl jk by (metis nth_mem)
    have "c5 ! ?j = (?cat ! ?j)\<lparr>cols := (\<lambda>f. if f \<in> set (parameter_columns ss) then cols (entries active ! k) f else cols (?cat ! ?j) f),
                                n_iter := wrap ?wi (n_iter (?cat ! ?j) + d), is_active := False,
                                n_patch := wrap ?wp (n_patch (?cat ! ?j) + 1), is_valid := True\<rparr>"
      unfolding c5_def using dai bai lai jl kl jk par by (intro checkin_rows(2)) auto
    then have "c5 ! ?j = (?cat ! ?j)\<lparr>cols := (\<lambda>f. if f \<in> set (parameter_columns ss) then cols r f else cols (?cat ! ?j) f),
                                n_iter := wrap ?wi (n_iter (?cat ! ?j) + d), is_active := False,
                                n_patch := wrap ?wp (n_patch (?cat ! ?j) + 1), is_valid := True\<rparr>"
      unfolding k(2) .
    moreover have "sourcecat ss' ! ?j = (if ?j \<in> set fi then (c5 ! ?j)\<lparr>is_valid := True\<rparr> else c5 ! ?j)"
      using final[OF jl] .
    ultimately have "sourcecat ss' ! ?j
              = (?cat ! ?j)
                  \<lparr>cols := (\<lambda>f. if f \<in> set (parameter_columns ss) then cols r f
                                 else cols (?cat ! ?j) f),
                   n_iter := wrap ?wi (n_iter (?cat ! ?j) + d),
                   is_active := False,
                   n_patch := wrap ?wp (n_patch (?cat ! ?j) + 1),
                   is_valid := True\<rparr>"
      by simp
    with jl show ?thesis by simp
  qed
  show ?thesis
  proof (intro conjI ballI impI)
    fix r assume r: "r \<in> set (entries active)"
    show "nat (source_index r) < length ?cat" using act[OF r] by simp
    show "sourcecat ss' ! nat (source_index r)
              = (?cat ! nat (source_index r))
                  \<lparr>cols := (\<lambda>f. if f \<in> set (parameter_columns ss) then cols r f
                                 else cols (?cat ! nat (source_index r)) f),
                   n_iter := wrap ?wi (n_iter (?cat ! nat (source_index r)) + d),
                   is_active := False,
                   n_patch := wrap ?wp (n_patch (?cat ! nat (source_index r)) + 1),
                   is_valid := True\<rparr>"
      using act[OF r] by simp
    {
      assume "fits ?wi (n_iter (?cat ! nat (source_index r)) + d)"
      then have "wrap ?wi (n_iter (?cat ! nat (source_index r)) + d)
                 = n_iter (?cat ! nat (source_index r)) + d" by (rule wrap_fits)
      then show "n_iter (sourcecat ss' ! nat (source_index r))
                 = n_iter (?cat ! nat (source_index r)) + d"
        using act[OF r] by simp
    }
    {
      assume "fits ?wp (n_patch (?cat ! nat (source_index r)) + 1)"
      then have "wrap ?wp (n_patch (?cat ! nat (source_index r)) + 1)
                 = n_patch (?cat ! nat (source_index r)) + 1" by (rule wrap_fits)
      then show "n_patch (sourcecat ss' ! nat (source_index r))
                 = n_patch (?cat ! nat (source_index r)) + 1"
        using act[OF r] by simp
    }
  next
    fix r assume r: "r \<in> set (entries fixed)"
    let ?j = "nat (source_index r)"
    have jf: "?j \<in> set fi" using r by (auto simp: fi)
    then show jl: "?j < length ?cat" using bfi by simp
    have "?j \<notin> set ai" using sep[OF _ r] by (fastforce simp: ai)
    then have "c5 ! ?j = ?cat ! ?j"
      unfolding c5_def using dai bai lai jl par by (intro checkin_rows(1)) auto
    then show "sourcecat ss' ! ?j = (?cat ! ?j)\<lparr>is_valid := True\<rparr>"
      using final[OF jl] jf by simp
  qed
qed

subsection \<open>Scenario A, evaluated\<close>

lemma scenario_A_simps:
  "scene_coordinates scenario_A = [(0, 0), (2, 0), (4, 0), (6, 0), (8, 0)]"
  "sourcecat scenario_A = [line_source 0 0, line_source 1 2, line_source 2 4, line_source 3 6, line_source 4 8]"
  "boundary_radius scenario_A = 8" "maxradius scenario_A = 5" "minradius scenario_A = 1"
  "maxactive scenario_A = 2" "nscale scenario_A = 3" "to_scene scenario_A = (\<lambda>p. p)"
  "n_sources scenario_A = 5" "parameter_columns scenario_A = [''ra'', ''dec'', ''rhalf'']"
  "cat_dtype scenario_A = int32_dtype"
  by (simp_all add: scenario_A_def)

lemma int32_dtype_simps:
  "float_names int32_dtype = []" "n_iter_bits int32_dtype = 32" "n_patch_bits int32_dtype = 32"
  by (simp_all add: int32_dtype_def)

lemma line_source_simps:
  "cols (line_source i x) ''rhalf'' = 1 / 10" "cols (line_source i x) ''ra'' = x"
  "cols (line_source i x) ''dec'' = 0"
  "is_active (line_source i x) = False" "is_valid (line_source i x) = True"
  "n_iter (line_source i x) = 0" "n_patch (line_source i x) = 0"
  "source_index (line_source i x) = int i"
  by (simp_all add: line_source_def)

lemma scenario_A_columns:
  "\<forall>f \<in> set (parameter_columns scenario_A).
     f \<in> set (dtype_names []) \<and> f \<in> set (dtype_names (float_names (cat_dtype scenario_A)))"
  "set (parameter_columns scenario_A) \<inter> set bookkeeping = {}"
  "''source_index'' \<in> set (dtype_names [])"
  by (simp_all add: scenario_A_simps int32_dtype_simps dtype_names_def bookkeeping_def)

subsection \<open>Failures of checkin_region\<close>

text \<open>
  C9 (as amended). \<open>checkin_region\<close> raises exactly when a supplied table has no
  \<open>source_index\<close> field, a parameter column is not a field of the active table or of the
  catalog, an index is outside the catalog, or the iteration count does not fit 64 bits;
  the exception is ValueError, IndexError or TypeError; whether an index is checked out is
  not examined. When a table has no \<open>source_index\<close> field the exception is ValueError and
  the scene is left unchanged, and when an active index is outside the catalog the scene
  is left unchanged.
\<close>

theorem checkin_raises:
  "(fst (checkin_region active fixed d ss) = Inr ()) =
     (''source_index'' \<in> set (row_names active) \<and> ''source_index'' \<in> set (row_names fixed)
      \<and> (\<forall>f \<in> set (parameter_columns ss).
            f \<in> set (row_names active) \<and> f \<in> set (dtype_names (float_names (cat_dtype ss))))
      \<and> (\<forall>i \<in> set (map source_index (entries active)) \<union> set (map source_index (entries fixed)).
            norm_index (length (sourcecat ss)) i \<noteq> None)
      \<and> int64 d)
   \<and> fst (checkin_region active fixed d ss) \<in> {Inr (), Inl ValueError, Inl IndexError, Inl TypeError}
   \<and> (''source_index'' \<notin> set (row_names active) \<or> ''source_index'' \<notin> set (row_names fixed)
        \<longrightarrow> checkin_region active fixed d ss = (Inl ValueError, ss))
   \<and> ((\<exists>i \<in> set (map source_index (entries active)). norm_index (length (sourcecat ss)) i = None)
        \<longrightarrow> snd (checkin_region active fixed d ss) = ss)"
proof -
  let ?n = "length (sourcecat ss)"
  let ?A = "map source_index (entries active)"
  let ?F = "map source_index (entries fixed)"
  let ?N = "dtype_names (float_names (cat_dtype ss))"
  let ?U = "update_parameters (parameter_columns ss) active ?N ?A (sourcecat ss)"
  let ?S = "''source_index'' \<in> set (row_names active) \<and> ''source_index'' \<in> set (row_names fixed)"
  let ?P = "\<forall>f \<in> set (parameter_columns ss). f \<in> set (row_names active) \<and> f \<in> set ?N"
  let ?IA = "\<forall>i \<in> set ?A. norm_index ?n i \<noteq> None"
  let ?IF = "\<forall>i \<in> set ?F. norm_index ?n i \<noteq> None"
  let ?R = "checkin_region active fixed d ss"
  obtain e c1 where up: "?U = (e, c1)" by (cases ?U) auto
  have l1: "length c1 = ?n"
    using update_parameters_length[of "parameter_columns ss" active ?N ?A "sourcecat ss"] up by simp
  have r: "(fst ?R = Inr ()) = (?S \<and> ?P \<and> ?IA \<and> ?IF \<and> int64 d)
      \<and> fst ?R \<in> {Inr (), Inl ValueError, Inl IndexError, Inl TypeError}
      \<and> (\<not> ?S \<longrightarrow> ?R = (Inl ValueError, ss))
      \<and> (\<not> ?IA \<longrightarrow> snd ?R = ss)"
  proof (cases ?S)
    case False
    then have "?R = (Inl ValueError, ss)"
      by (auto simp: checkin_region_def column_source_index_def)
    with False show ?thesis by auto
  next
    case S: True
    show ?thesis
    proof (cases ?IA)
      case False
      then have fa: "fancy_index ?n ?A = Inl IndexError" by (auto simp: fancy_index_def)
      from update_parameters_out_of_range[OF fa, of "parameter_columns ss" active ?N] up
      have c: "c1 = sourcecat ss" and e: "e = None \<or> e = Some ValueError \<or> e = Some IndexError"
        by auto
      have "snd ?R = ss \<and> (fst ?R = Inl ValueError \<or> fst ?R = Inl IndexError)"
        using S e by (auto simp: checkin_region_def column_source_index_def up c fa)
      with False S show ?thesis by auto
    next
      case IA: True
      then have fa: "fancy_index ?n ?A = Inr (map (\<lambda>i. the (norm_index ?n i)) ?A)"
        by (rule fancy_index_in_catalog)
      show ?thesis
      proof (cases ?P)
        case False
        then have "\<exists>f \<in> set (parameter_columns ss). f \<notin> set (row_names active) \<or> f \<notin> set ?N"
          by blast
        from update_parameters_missing[OF fa this] up have "e = Some ValueError" by simp
        then have "fst ?R = Inl ValueError"
          using S by (simp add: checkin_region_def column_source_index_def up)
        with False S IA show ?thesis by auto
      next
        case P: True
        from update_parameters_complete[OF fa P] up have e: "e = None" by simp
        show ?thesis
        proof (cases "int64 d")
          case False
          then have "fst ?R = Inl TypeError"
            using S by (simp add: checkin_region_def column_source_index_def up e l1 fa)
          with False S IA show ?thesis by auto
        next
          case D: True
          show ?thesis
          proof (cases ?IF)
            case False
            then have ff: "fancy_index ?n ?F = Inl IndexError" by (auto simp: fancy_index_def)
            have "fst ?R = Inl IndexError"
              using S D by (simp add: checkin_region_def column_source_index_def up e l1 fa ff Let_def)
            with False S IA show ?thesis by auto
          next
            case True
            then have ff: "fancy_index ?n ?F = Inr (map (\<lambda>i. the (norm_index ?n i)) ?F)"
              by (rule fancy_index_in_catalog)
            have "fst ?R = Inr ()"
              using S D by (simp add: checkin_region_def column_source_index_def up e l1 fa ff Let_def)
            with True S IA P D show ?thesis by auto
          qed
        qed
      qed
    qed
  qed
  have u: "(\<forall>i \<in> set ?A \<union> set ?F. norm_index ?n i \<noteq> None) = (?IA \<and> ?IF)" by blast
  show ?thesis unfolding u using r by blast
qed

lemma checkin_region_succeeds:
  assumes "''source_index'' \<in> set (row_names active)" "''source_index'' \<in> set (row_names fixed)"
    and "\<forall>f \<in> set (parameter_columns ss).
           f \<in> set (row_names active) \<and> f \<in> set (dtype_names (float_names (cat_dtype ss)))"
    and "\<forall>i \<in> set (map source_index (entries active)) \<union> set (map source_index (entries fixed)).
           norm_index (length (sourcecat ss)) i \<noteq> None"
    and "int64 d"
  shows "fst (checkin_region active fixed d ss) = Inr ()"
proof -
  let ?n = "length (sourcecat ss)"
  have a: "fancy_index ?n (map source_index (entries active))
             = Inr (map (\<lambda>i. the (norm_index ?n i)) (map source_index (entries active)))"
    and f: "fancy_index ?n (map source_index (entries fixed))
             = Inr (map (\<lambda>i. the (norm_index ?n i)) (map source_index (entries fixed)))"
    using assms(4) by (auto simp: fancy_index_def)
  show ?thesis
    by (simp add: checkin_region_complete[OF assms(1,2,3) a f assms(5)])
qed

text \<open>
  In Scenario A nothing has been checked out (every source is valid and inactive); the
  check-in of a row for index 0 raises nothing and changes the catalog.
\<close>

theorem checkin_not_checked_out_counterexample:
  "is_valid (sourcecat scenario_A ! 0) \<and> \<not> is_active (sourcecat scenario_A ! 0)
   \<and> fst (checkin_region returned_rows no_rows 5 scenario_A) = Inr ()
   \<and> n_patch (sourcecat (snd (checkin_region returned_rows no_rows 5 scenario_A)) ! 0) = 1
   \<and> snd (checkin_region returned_rows no_rows 5 scenario_A) \<noteq> scenario_A"
proof -
  have fa: "fancy_index (length (sourcecat scenario_A)) (map source_index (entries returned_rows)) = Inr [0]"
    and ff: "fancy_index (length (sourcecat scenario_A)) (map source_index (entries no_rows)) = Inr []"
    by (simp_all add: fancy_index_def norm_index_def returned_rows_def no_rows_def
          scenario_A_simps line_source_simps)
  have rn: "row_names returned_rows = dtype_names []" "row_names no_rows = dtype_names []"
    by (simp_all add: returned_rows_def no_rows_def)
  have d: "int64 5" by (simp add: int64_def)
  note c = checkin_region_complete[of returned_rows no_rows scenario_A, unfolded rn,
      OF scenario_A_columns(3) scenario_A_columns(3) scenario_A_columns(1) fa ff d]
  have l: "length (write_columns (parameter_columns scenario_A) [0] (entries returned_rows)
              (sourcecat scenario_A)) = 5"
    by (simp add: scenario_A_simps)
  have "0 < length (sourcecat scenario_A)" by (simp add: scenario_A_simps)
  from checkin_rows(2)[OF _ _ _ this scenario_A_columns(2), of "[0]" "entries returned_rows" 0
        "n_patch_bits (cat_dtype scenario_A)" "n_iter_bits (cat_dtype scenario_A)" 5]
  have "n_patch (assign_const (\<lambda>r. r\<lparr>is_valid := True\<rparr>) [0]
       (assign_add (n_patch_bits (cat_dtype scenario_A)) n_patch (\<lambda>v r. r\<lparr>n_patch := v\<rparr>) 1 [0]
         (assign_const (\<lambda>r. r\<lparr>is_active := False\<rparr>) [0]
           (assign_add (n_iter_bits (cat_dtype scenario_A)) n_iter (\<lambda>v r. r\<lparr>n_iter := v\<rparr>) 5 [0]
             (write_columns (parameter_columns scenario_A) [0] (entries returned_rows)
                (sourcecat scenario_A))))) ! 0) = 1"
    by (simp add: returned_rows_def scenario_A_simps int32_dtype_simps line_source_simps wrap_32)
  then have n: "n_patch (sourcecat (snd (checkin_region returned_rows no_rows 5 scenario_A)) ! 0) = 1"
    by (simp add: c assign_const_def)
  moreover have "n_patch (sourcecat scenario_A ! 0) = 0"
    by (simp add: scenario_A_simps line_source_simps)
  ultimately have "snd (checkin_region returned_rows no_rows 5 scenario_A) \<noteq> scenario_A"
    by auto
  moreover have "fst (checkin_region returned_rows no_rows 5 scenario_A) = Inr ()"
    by (simp add: c)
  ultimately show ?thesis using n by (simp add: scenario_A_simps line_source_simps)
qed

theorem checkin_raises_witness:
  "''source_index'' \<notin> set (row_names unindexed_rows)
   \<and> checkin_region unindexed_rows no_rows 5 scenario_A = (Inl ValueError, scenario_A)
   \<and> fst (checkin_region unindexed_rows no_rows 5 scenario_A) \<noteq> Inl KeyError
   \<and> norm_index (length (sourcecat scenario_A)) 7 = None
   \<and> map source_index (entries stray_rows) = [7]
   \<and> fst (checkin_region stray_rows no_rows 5 scenario_A) \<noteq> Inr ()
   \<and> snd (checkin_region stray_rows no_rows 5 scenario_A) = scenario_A"
proof -
  have a: "''source_index'' \<notin> set (row_names unindexed_rows)"
    by (simp add: unindexed_rows_def)
  have n: "norm_index (length (sourcecat scenario_A)) 7 = None"
    by (simp add: norm_index_def scenario_A_simps)
  have i: "map source_index (entries stray_rows) = [7]"
    by (simp add: stray_rows_def line_source_simps)
  from checkin_raises[of unindexed_rows no_rows 5 scenario_A] a
  have u: "checkin_region unindexed_rows no_rows 5 scenario_A = (Inl ValueError, scenario_A)"
    by blast
  from checkin_raises[of stray_rows no_rows 5 scenario_A] n i
  have s: "fst (checkin_region stray_rows no_rows 5 scenario_A) \<noteq> Inr ()"
    "snd (checkin_region stray_rows no_rows 5 scenario_A) = scenario_A"
    by auto
  show ?thesis using a n i u s by simp
qed

subsection \<open>Evaluating the patch selection\<close>

lemma hypot_zero [simp]: "hypot x 0 = \<bar>x\<bar>"
  by (simp add: hypot_def)

lemma get_circular_scene_eval:
  assumes "query_ball_point (scene_coordinates ss) center (boundary_radius ss) = kinds"
    and "kinds \<noteq> []" and "\<forall>k \<in> set kinds. k < length (sourcecat ss)"
    and "\<forall>k \<in> set kinds. \<not> is_active (sourcecat ss ! k)"
    and "outer_distance ss center kinds = outer"
    and "inner_distance ss center kinds = inner"
    and "argsort outer = order"
    and "map (\<lambda>j. outer ! j) order = sorted_outer"
    and "min (maxactive ss) (int (N_inside sorted_outer (maxradius ss))) = N_active"
  shows "get_circular_scene ss center =
     (case amax (slice_to N_active sorted_outer) of
        Inl e \<Rightarrow> Inl e
      | Inr m \<Rightarrow>
          let radius = max (minradius ss) m;
              finds = slice_from N_active order;
              fixed_inds = slice_to (min (maxactive ss) (int (length finds)))
                             (filter (\<lambda>j. inner ! j < radius) finds);
              fixed_inds = (if length fixed_inds = 0 then slice_to 1 finds else fixed_inds)
          in Inr (Selected radius (map (\<lambda>j. kinds ! j) (slice_to N_active order))
                                  (map (\<lambda>j. kinds ! j) fixed_inds)))"
proof -
  have a: "\<not> (kinds = [] \<or> (\<exists>k \<in> set kinds. length (sourcecat ss) \<le> k))"
    using assms(2,3) by (auto simp: not_le)
  have b: "\<not> (\<exists>k \<in> set kinds. is_active (sourcecat ss ! k))"
    using assms(4) by simp
  show ?thesis
    unfolding get_circular_scene_def assms(1) Let_def if_not_P[OF a] if_not_P[OF b]
      assms(5) assms(6) assms(7) assms(8) assms(9) ..
qed

lemma scenario_A_kinds:
  "query_ball_point (scene_coordinates scenario_A) (2, 0) (boundary_radius scenario_A) = [0, 1, 2, 3, 4]"
  by (simp add: scenario_A_simps query_ball_point_def distance_to_def)

lemma scenario_A_outer:
  "outer_distance scenario_A (2, 0) [0, 1, 2, 3, 4] = [23/10, 3/10, 23/10, 43/10, 63/10]"
  by (simp add: outer_distance_def scenario_A_simps line_source_simps distance_to_def)

lemma scenario_A_inner:
  "inner_distance scenario_A (2, 0) [0, 1, 2, 3, 4] = [17/10, -3/10, 17/10, 37/10, 57/10]"
  by (simp add: inner_distance_def scenario_A_simps line_source_simps distance_to_def)

lemma scenario_A_order: "argsort [23/10, 3/10, 23/10, 43/10, 63/10] = [1, 0, 2, 3, 4]"
  by (simp add: argsort_def)

lemma scenario_A_selection:
  "get_circular_scene scenario_A (2, 0) = Inr (Selected (23/10) [1, 0] [2])"
proof -
  have so: "map (\<lambda>j. [23/10, 3/10, 23/10, 43/10, 63/10::real] ! j) [1, 0, 2, 3, 4]
             = [3/10, 23/10, 23/10, 43/10, 63/10]" by simp
  have na: "min (maxactive scenario_A)
              (int (N_inside [3/10, 23/10, 23/10, 43/10, 63/10] (maxradius scenario_A))) = 2"
    by (simp add: scenario_A_simps N_inside_def argmin_def)
  show ?thesis
    by (subst get_circular_scene_eval[OF scenario_A_kinds _ _ _ scenario_A_outer scenario_A_inner
            scenario_A_order so na])
       (simp_all add: scenario_A_simps line_source_simps amax_def slice_to_def slice_from_def)
qed

lemma scenario_A_center: "draw_center scenario_A (Some 1) u = Inr (2, 0)"
  by (simp add: draw_center_def norm_index_def scenario_A_simps line_source_simps)

lemma scenario_A_checkout:
  "fst (checkout_region (Some 1) u scenario_A)
     = Inr (Patch (CircularRegion 2 0 (23 / 36000))
              [(checked_out 1 2)\<lparr>is_active := True\<rparr>, (checked_out 0 0)\<lparr>is_active := True\<rparr>]
              [checked_out 2 4])"
  "sourcecat (snd (checkout_region (Some 1) u scenario_A))
     = [(checked_out 0 0)\<lparr>is_active := True\<rparr>, (checked_out 1 2)\<lparr>is_active := True\<rparr>,
        checked_out 2 4, line_source 3 6, line_source 4 8]"
  "n_active (snd (checkout_region (Some 1) u scenario_A)) = 2"
  "n_fixed (snd (checkout_region (Some 1) u scenario_A)) = 1"
proof -
  have n: "n_active scenario_A = 0" "n_fixed scenario_A = 0" by (simp_all add: scenario_A_def)
  show "fst (checkout_region (Some 1) u scenario_A)
     = Inr (Patch (CircularRegion 2 0 (23 / 36000))
              [(checked_out 1 2)\<lparr>is_active := True\<rparr>, (checked_out 0 0)\<lparr>is_active := True\<rparr>]
              [checked_out 2 4])"
    by (simp add: checkout_region_def scenario_A_center scenario_A_selection
        scenario_A_simps assign_const_def checked_out_def Let_def)
  show "sourcecat (snd (checkout_region (Some 1) u scenario_A))
     = [(checked_out 0 0)\<lparr>is_active := True\<rparr>, (checked_out 1 2)\<lparr>is_active := True\<rparr>,
        checked_out 2 4, line_source 3 6, line_source 4 8]"
    by (simp add: checkout_region_def scenario_A_center scenario_A_selection
        scenario_A_simps assign_const_def checked_out_def Let_def)
  show "n_active (snd (checkout_region (Some 1) u scenario_A)) = 2"
    by (simp add: checkout_region_def scenario_A_center scenario_A_selection
        scenario_A_simps n Let_def)
  show "n_fixed (snd (checkout_region (Some 1) u scenario_A)) = 1"
    by (simp add: checkout_region_def scenario_A_center scenario_A_selection
        scenario_A_simps n Let_def)
qed



lemma scenario_A_out_sourcecat:
  "sourcecat scenario_A_out
     = [(checked_out 0 0)\<lparr>is_active := True\<rparr>, (checked_out 1 2)\<lparr>is_active := True\<rparr>,
        checked_out 2 4, line_source 3 6, line_source 4 8]"
  by (simp add: scenario_A_out_def scenario_A_checkout)

lemma scenario_A_out_simps:
  "parameter_columns scenario_A_out = [''ra'', ''dec'', ''rhalf'']"
  "cat_dtype scenario_A_out = int32_dtype"
  by (simp_all add: scenario_A_out_def checkout_region_def scenario_A_center scenario_A_selection
        scenario_A_simps Let_def)

lemma scenario_A_out_columns:
  "\<forall>f \<in> set (parameter_columns scenario_A_out).
     f \<in> set (dtype_names []) \<and> f \<in> set (dtype_names (float_names (cat_dtype scenario_A_out)))"
  "set (parameter_columns scenario_A_out) \<inter> set bookkeeping = {}"
  by (simp_all add: scenario_A_out_simps int32_dtype_simps dtype_names_def bookkeeping_def)

lemma checked_out_simps:
  "source_index (checked_out i x) = int i" "n_iter (checked_out i x) = 0"
  "n_patch (checked_out i x) = 0" "is_active (checked_out i x) = False"
  "is_valid (checked_out i x) = False" "cols (checked_out i x) ''ra'' = x"
  by (simp_all add: checked_out_def line_source_simps)

lemma scenario_A_out_rows:
  "map source_index (entries active_rows) = [1, 0]"
  "map source_index (entries fixed_rows) = [2]"
  "row_names active_rows = dtype_names []" "row_names fixed_rows = dtype_names []"
  "fancy_index (length (sourcecat scenario_A_out)) (map source_index (entries active_rows)) = Inr [1, 0]"
  "fancy_index (length (sourcecat scenario_A_out)) (map source_index (entries fixed_rows)) = Inr [2]"
  by (simp_all add: active_rows_def fixed_rows_def checked_out_simps set_col_def
        fancy_index_def norm_index_def scenario_A_out_sourcecat)

text \<open>
  The check-in of the rows checked out in Scenario A with \<open>2^31\<close> iterations, on 32-bit
  columns: \<open>n_iter\<close> of source 1 goes from 0 to \<open>-2^31\<close>.
\<close>

theorem checkin_wraps_counterexample:
  "fst (checkin_region active_rows fixed_rows 2147483648 scenario_A_out) = Inr ()
   \<and> n_iter (sourcecat scenario_A_out ! 1) = 0
   \<and> n_iter (sourcecat (snd (checkin_region active_rows fixed_rows 2147483648 scenario_A_out)) ! 1)
       = - 2147483648
   \<and> n_iter (sourcecat (snd (checkin_region active_rows fixed_rows 2147483648 scenario_A_out)) ! 1)
       \<noteq> n_iter (sourcecat scenario_A_out ! 1) + 2147483648"
proof -
  let ?ss' = "snd (checkin_region active_rows fixed_rows 2147483648 scenario_A_out)"
  have d: "int64 2147483648" by (simp add: int64_def)
  note c = checkin_region_complete[of active_rows fixed_rows scenario_A_out,
      unfolded scenario_A_out_rows(3,4),
      OF scenario_A_columns(3) scenario_A_columns(3) scenario_A_out_columns(1)
         scenario_A_out_rows(5) scenario_A_out_rows(6) d]
  have l: "(1::nat) < length (sourcecat scenario_A_out)" by (simp add: scenario_A_out_sourcecat)
  have o: "n_iter (sourcecat scenario_A_out ! 1) = 0"
    by (simp add: scenario_A_out_sourcecat checked_out_simps)
  have "n_iter (assign_const (\<lambda>r. r\<lparr>is_valid := True\<rparr>) [1, 0]
       (assign_add (n_patch_bits (cat_dtype scenario_A_out)) n_patch (\<lambda>v r. r\<lparr>n_patch := v\<rparr>) 1 [1, 0]
         (assign_const (\<lambda>r. r\<lparr>is_active := False\<rparr>) [1, 0]
           (assign_add (n_iter_bits (cat_dtype scenario_A_out)) n_iter (\<lambda>v r. r\<lparr>n_iter := v\<rparr>) 2147483648 [1, 0]
             (write_columns (parameter_columns scenario_A_out) [1, 0] (entries active_rows)
                (sourcecat scenario_A_out))))) ! 1) = - 2147483648"
    by (subst checkin_rows(2)[OF _ _ _ l scenario_A_out_columns(2), of "[1, 0]" _ 0])
       (simp_all add: active_rows_def scenario_A_out_sourcecat scenario_A_out_simps
          int32_dtype_simps checked_out_simps wrap_32)
  moreover have "length (assign_const (\<lambda>r. r\<lparr>is_valid := True\<rparr>) [1, 0]
       (assign_add (n_patch_bits (cat_dtype scenario_A_out)) n_patch (\<lambda>v r. r\<lparr>n_patch := v\<rparr>) 1 [1, 0]
         (assign_const (\<lambda>r. r\<lparr>is_active := False\<rparr>) [1, 0]
           (assign_add (n_iter_bits (cat_dtype scenario_A_out)) n_iter (\<lambda>v r. r\<lparr>n_iter := v\<rparr>) 2147483648 [1, 0]
             (write_columns (parameter_columns scenario_A_out) [1, 0] (entries active_rows)
                (sourcecat scenario_A_out)))))) = 5"
    by (simp add: scenario_A_out_sourcecat)
  ultimately have n: "n_iter (sourcecat ?ss' ! 1) = - 2147483648"
    by (simp add: c assign_const_def)
  have "fst (checkin_region active_rows fixed_rows 2147483648 scenario_A_out) = Inr ()"
    by (simp add: c)
  then show ?thesis using n o by simp
qed

text \<open>The check-in of the rows checked out in Scenario A, with 5 iterations.\<close>

theorem checkin_effect_witness:
  "fst (checkin_region active_rows fixed_rows 5 scenario_A_out) = Inr ()
   \<and> map source_index (entries active_rows) = [1, 0]
   \<and> map source_index (entries fixed_rows) = [2]
   \<and> set (parameter_columns scenario_A_out) \<inter> set bookkeeping = {}
   \<and> map (\<lambda>r. (cols r ''ra'', n_iter r, n_patch r, is_active r, is_valid r))
        (take 3 (sourcecat scenario_A_out))
      = [(0, 0, 0, True, False), (2, 0, 0, True, False), (4, 0, 0, False, False)]
   \<and> map (\<lambda>r. (cols r ''ra'', n_iter r, n_patch r, is_active r, is_valid r))
        (take 3 (sourcecat (snd (checkin_region active_rows fixed_rows 5 scenario_A_out))))
      = [(0, 5, 1, False, True), (21 / 10, 5, 1, False, True), (4, 0, 0, False, True)]"
proof -
  let ?ss' = "snd (checkin_region active_rows fixed_rows 5 scenario_A_out)"
  note idx = scenario_A_out_rows(1,2)
  have d: "int64 5" by (simp add: int64_def)
  note c = checkin_region_complete[of active_rows fixed_rows scenario_A_out,
      unfolded scenario_A_out_rows(3,4),
      OF scenario_A_columns(3) scenario_A_columns(3) scenario_A_out_columns(1)
         scenario_A_out_rows(5) scenario_A_out_rows(6) d]
  have f: "fst (checkin_region active_rows fixed_rows 5 scenario_A_out) = Inr ()"
    by (simp add: c)
  then have ok: "checkin_region active_rows fixed_rows 5 scenario_A_out = (Inr (), ?ss')"
    by (metis prod.collapse)
  have nonneg: "\<forall>r \<in> set (entries active_rows) \<union> set (entries fixed_rows). 0 \<le> source_index r"
    by (simp add: active_rows_def fixed_rows_def checked_out_simps set_col_def)
  have dist: "distinct (map source_index (entries active_rows))" by (simp add: idx)
  have disj: "source_index ` set (entries active_rows) \<inter> source_index ` set (entries fixed_rows) = {}"
    using idx by (simp add: active_rows_def fixed_rows_def checked_out_simps set_col_def)
  note E = checkin_effect[OF ok nonneg dist disj scenario_A_out_columns(2)]
  define r1 where "r1 = set_col ''ra'' (21 / 10) ((checked_out 1 2)\<lparr>is_active := True\<rparr>)"
  define r0 where "r0 = (checked_out 0 0)\<lparr>is_active := True\<rparr>"
  have m: "r1 \<in> set (entries active_rows)" "r0 \<in> set (entries active_rows)"
    "checked_out 2 4 \<in> set (entries fixed_rows)"
    by (simp_all add: active_rows_def fixed_rows_def r1_def r0_def)
  have i: "nat (source_index r1) = 1" "nat (source_index r0) = 0" "nat (source_index (checked_out 2 4)) = 2"
    "cols r1 ''ra'' = 21 / 10" "cols r0 ''ra'' = 0"
    by (simp_all add: r1_def r0_def checked_out_simps set_col_def)
  note pc = scenario_A_out_simps(1)
  note e1 = E[THEN conjunct1, rule_format, OF m(1), THEN conjunct2, THEN conjunct1, unfolded i(1)]
  note e0 = E[THEN conjunct1, rule_format, OF m(2), THEN conjunct2, THEN conjunct1, unfolded i(2)]
  note e2 = E[THEN conjunct2, rule_format, OF m(3), THEN conjunct2, unfolded i(3)]
  have old: "map (\<lambda>r. (cols r ''ra'', n_iter r, n_patch r, is_active r, is_valid r))
        (take 3 (sourcecat scenario_A_out))
      = [(0, 0, 0, True, False), (2, 0, 0, True, False), (4, 0, 0, False, False)]"
    by (simp add: scenario_A_out_sourcecat checked_out_simps)
  have o: "sourcecat scenario_A_out ! 0 = (checked_out 0 0)\<lparr>is_active := True\<rparr>"
    "sourcecat scenario_A_out ! 1 = (checked_out 1 2)\<lparr>is_active := True\<rparr>"
    "sourcecat scenario_A_out ! 2 = checked_out 2 4"
    by (simp_all add: scenario_A_out_sourcecat)
  have n1: "(\<lambda>r. (cols r ''ra'', n_iter r, n_patch r, is_active r, is_valid r)) (sourcecat ?ss' ! 1)
             = (21 / 10, 5, 1, False, True)"
    unfolding e1 o by (simp add: pc i checked_out_simps scenario_A_out_simps int32_dtype_simps wrap_32)
  have n0: "(\<lambda>r. (cols r ''ra'', n_iter r, n_patch r, is_active r, is_valid r)) (sourcecat ?ss' ! 0)
             = (0, 5, 1, False, True)"
    unfolding e0 o by (simp add: pc i checked_out_simps scenario_A_out_simps int32_dtype_simps wrap_32)
  have n2: "(\<lambda>r. (cols r ''ra'', n_iter r, n_patch r, is_active r, is_valid r)) (sourcecat ?ss' ! 2)
             = (4, 0, 0, False, True)"
    unfolding e2 o by (simp add: checked_out_simps)
  have len: "length (sourcecat ?ss') = 5"
    by (simp add: c scenario_A_out_sourcecat)
  have t3: "take 3 (sourcecat ?ss') = [sourcecat ?ss' ! 0, sourcecat ?ss' ! 1, sourcecat ?ss' ! 2]"
    using len by (simp add: take_Suc_conv_app_nth eval_nat_numeral)
  have new: "map (\<lambda>r. (cols r ''ra'', n_iter r, n_patch r, is_active r, is_valid r))
        (take 3 (sourcecat ?ss'))
      = [(0, 5, 1, False, True), (21 / 10, 5, 1, False, True), (4, 0, 0, False, True)]"
    unfolding t3 using n0 n1 n2 by simp
  show ?thesis
    using f idx old new scenario_A_out_columns(2)
    by blast
qed

subsection \<open>Seed selection\<close>

text \<open>
  C5 (as amended). For every catalog and every explicitly supplied seed index other than 0,
  \<open>draw_center\<close> returns the position of exactly that entry (negative indices counting
  from the end), whatever the random draw would have been, and raises IndexError when the
  catalog has no such entry; the seed index 0 is treated like no seed index, and the
  weighted random draw is used.
\<close>

theorem draw_center_explicit:
  "(k \<noteq> 0 \<and> norm_index (length (sourcecat ss)) k = Some i \<longrightarrow>
      draw_center ss (Some k) u
        = Inr (cols (sourcecat ss ! i) ''ra'', cols (sourcecat ss ! i) ''dec''))
   \<and> (k \<noteq> 0 \<and> norm_index (length (sourcecat ss)) k = None \<longrightarrow>
      draw_center ss (Some k) u = Inl IndexError)
   \<and> draw_center ss (Some 0) u = draw_center ss None u
   \<and> draw_center ss None u =
       (case seed_weight ss of
          Inl e \<Rightarrow> Inl e
        | Inr p \<Rightarrow>
            (case random_choice (n_sources ss) p u of
               Inl e \<Rightarrow> Inl e
             | Inr j \<Rightarrow>
                 (case norm_index (length (sourcecat ss)) j of
                    None \<Rightarrow> Inl IndexError
                  | Some i \<Rightarrow> Inr (cols (sourcecat ss ! i) ''ra'', cols (sourcecat ss ! i) ''dec''))))"
  by (auto simp: draw_center_def split: sum.splits)


lemma overflow_bound_large: "5 < overflow_bound" "1 < overflow_bound"
  by (simp_all add: overflow_bound_def)

lemma underflow_bound_small: "underflow_bound < 1"
  by (simp add: underflow_bound_def)

lemma fexp_0: "fexp 0 = Fin 1"
  using overflow_bound_large(2) underflow_bound_small by (simp add: fexp_def)

lemma fin_simps: "fin 0 = Fin 0" "fin 1 = Fin 1" "fin 2 = Fin 2" "fin 3 = Fin 3" "fin 4 = Fin 4"
  "fin 5 = Fin 5" "fin (1 / 5) = Fin (1 / 5)" "fin (1 / 3) = Fin (1 / 3)"
  using overflow_bound_large by (simp_all add: fin_def)

lemma scenario_A_weights:
  "seed_weight scenario_A = Inr [Fin (1 / 5), Fin (1 / 5), Fin (1 / 5), Fin (1 / 5), Fin (1 / 5)]"
  by (simp add: seed_weight_def exp_weight_def scenario_A_simps line_source_simps Let_def
        fexp_0 fsum_def fin_simps)

lemma scenario_A_draw:
  "random_choice 5 [Fin (1 / 5), Fin (1 / 5), Fin (1 / 5), Fin (1 / 5), Fin (1 / 5)] (1 / 2) = Inr 2"
  by (simp add: random_choice_def is_fin_def val_def cumsum_def upt_conv_Cons)

text \<open>
  The seed index 0 is not honoured: with the uniform variate 1/2 the draw falls on source 2,
  at (4, 0), and not on source 0, at (0, 0).
\<close>

theorem draw_center_zero_counterexample:
  "draw_center scenario_A (Some 0) (1 / 2) = Inr (4, 0)
   \<and> (cols (sourcecat scenario_A ! 0) ''ra'', cols (sourcecat scenario_A ! 0) ''dec'') = (0, 0)"
  by (simp add: draw_center_def scenario_A_weights scenario_A_draw norm_index_def
        scenario_A_simps line_source_simps)

theorem draw_center_explicit_witness:
  "(3::int) \<noteq> 0 \<and> norm_index (length (sourcecat scenario_A)) 3 = Some 3
   \<and> draw_center scenario_A (Some 3) (1 / 2) = Inr (6, 0)
   \<and> norm_index (length (sourcecat scenario_A)) 5 = None
   \<and> draw_center scenario_A (Some 5) (1 / 2) = Inl IndexError
   \<and> draw_center scenario_A (Some 0) (1 / 2) = draw_center scenario_A None (1 / 2)
   \<and> draw_center scenario_A None (1 / 2) = Inr (4, 0)"
proof -
  have n: "norm_index (length (sourcecat scenario_A)) 3 = Some 3"
    "norm_index (length (sourcecat scenario_A)) 5 = None"
    "norm_index (length (sourcecat scenario_A)) 2 = Some 2"
    by (simp_all add: scenario_A_simps norm_index_def)
  note t = draw_center_explicit[of 3 scenario_A 3 "1 / 2"]
  note f = draw_center_explicit[of 5 scenario_A 0 "1 / 2"]
  have a: "draw_center scenario_A (Some 3) (1 / 2) = Inr (6, 0)"
    using t n(1) by (simp add: scenario_A_simps line_source_simps)
  have b: "draw_center scenario_A (Some 5) (1 / 2) = Inl IndexError"
    using f n(2) by simp
  have c: "draw_center scenario_A (Some 0) (1 / 2) = draw_center scenario_A None (1 / 2)"
    using t by blast
  have d: "draw_center scenario_A None (1 / 2) = Inr (4, 0)"
    using t[THEN conjunct2, THEN conjunct2, THEN conjunct2]
    by (simp add: scenario_A_weights scenario_A_draw norm_index_def scenario_A_simps line_source_simps)
  show ?thesis using n a b c d by simp
qed

subsection \<open>The seed weights\<close>



lemma overflow_bound_pos: "0 < overflow_bound"
  using overflow_bound_large(2) by simp



text \<open>A sum with a NaN in it is NaN, and a sum of zeros is zero.\<close>

lemma fadd_NaN [simp]: "fadd x NaN = NaN" "fadd NaN x = NaN"
  by (cases x; simp)+



lemma fin_0: "fin 0 = Fin 0"
  using overflow_bound_pos by (simp add: fin_def not_le)


lemma fdiv_NaN [simp]: "fdiv x NaN = NaN" "fdiv NaN x = NaN"
  by (cases x; simp)+


lemma exp_weight_unfold:
  "sourcecat ss \<noteq> [] \<Longrightarrow>
     exp_weight ss =
       Inr (map (\<lambda>x. fdiv x (fsum (map (\<lambda>r. fmul (if is_active r then Fin 0 else Fin 1)
                                               (fexp (exponent ss r))) (sourcecat ss))))
              (map (\<lambda>r. fmul (if is_active r then Fin 0 else Fin 1) (fexp (exponent ss r)))
                 (sourcecat ss)))"
  by (simp add: exp_weight_def exponent_def Let_def)








text \<open>
  With an inactive entry, outside the range: in the catalog of two inactive sources with
  \<open>n_iter\<close> 0 and 100000 the arguments of \<open>exp\<close> are 2500 and -2500; the first weight
  overflows and the second underflows, and the weights returned are NaN and 0.
\<close>

lemma exp_2500: "overflow_bound \<le> exp 2500" "exp (- 2500) \<le> underflow_bound"
proof -
  have "(2::real) \<le> exp 1" using exp_ge_add_one_self[of 1] by simp
  then have "(2::real) ^ 2500 \<le> exp 1 ^ 2500" by (intro power_mono) auto
  also have "exp (1::real) ^ 2500 = exp 2500"
    using exp_of_nat_mult[of 2500 "1::real"] by simp
  finally have p: "(2::real) ^ 2500 \<le> exp 2500" .
  have "overflow_bound \<le> (2::real) ^ 2500" by (simp add: overflow_bound_def)
  with p show "overflow_bound \<le> exp 2500" by simp
  have "exp (- 2500 :: real) = 1 / exp 2500" by (simp add: exp_minus inverse_eq_divide)
  also have "\<dots> \<le> 1 / 2 ^ 2500" using p by (intro divide_left_mono) auto
  also have "\<dots> \<le> underflow_bound" by (simp add: underflow_bound_def)
  finally show "exp (- 2500) \<le> underflow_bound" .
qed

lemma exp_weight_overflow_example:
  "(\<exists>r \<in> set (sourcecat uneven). \<not> is_active r) \<and> exp_weight uneven = Inr [NaN, Fin 0]"
proof -
  have c: "sourcecat uneven = [line_source 0 0, (line_source 1 2)\<lparr>n_iter := 100000\<rparr>]"
    by (simp add: uneven_def)
  have e: "exponent uneven (line_source 0 0) = 2500"
    "exponent uneven ((line_source (Suc 0) 2)\<lparr>n_iter := 100000\<rparr>) = - 2500"
    by (simp_all add: exponent_def c line_source_simps)
  have u: "\<not> overflow_bound \<le> exp (- 2500)"
    using exp_2500(2) underflow_bound_small overflow_bound_large(2) by simp
  have f: "fexp 2500 = Inf" "fexp (- 2500) = Fin 0"
    using exp_2500 u by (simp_all add: fexp_def)
  have "exp_weight uneven = Inr [NaN, Fin 0]"
    by (simp add: exp_weight_unfold c e f line_source_simps fsum_def fin_0)
  then show ?thesis by (simp add: c line_source_simps)
qed

subsection \<open>checkout_region\<close>

lemma query_ball_point_less:
  "k \<in> set (query_ball_point pts center r) \<Longrightarrow> k < length pts"
  by (simp add: query_ball_point_def)

text \<open>
  C3. Whenever a centre has been drawn and some candidate within \<open>boundary_radius\<close> of it
  is active, \<open>checkout_region\<close> returns \<open>(center, None, None)\<close>, no region, and leaves the
  whole scene as it was: no flag of the catalog and no occupancy counter changes. (The
  KD-tree holds one point per catalog row.)
\<close>

theorem checkout_conflict:
  assumes "draw_center ss seed_index u = Inr c"
    and "length (scene_coordinates ss) = length (sourcecat ss)"
    and "\<exists>k \<in> set (query_ball_point (scene_coordinates ss) (to_scene ss c) (boundary_radius ss)).
           is_active (sourcecat ss ! k)"
  shows "checkout_region seed_index u ss = (Inr (NoRegion (to_scene ss c)), ss)"
proof -
  let ?kinds = "query_ball_point (scene_coordinates ss) (to_scene ss c) (boundary_radius ss)"
  have ne: "?kinds \<noteq> []" using assms(3) by auto
  have "\<forall>k \<in> set ?kinds. k < length (sourcecat ss)"
    using query_ball_point_less assms(2) by metis
  then have inr: "\<not> (\<exists>k \<in> set ?kinds. length (sourcecat ss) \<le> k)" by (auto simp: not_le)
  have "get_circular_scene ss (to_scene ss c) = Inr Conflict"
    using ne inr assms(3) by (simp add: get_circular_scene_def Let_def)
  then show ?thesis
    using assms(1) by (cases c) (simp add: checkout_region_def Let_def)
qed

lemma checkout_region_fields:
  "scene_coordinates (snd (checkout_region s u ss)) = scene_coordinates ss"
  "to_scene (snd (checkout_region s u ss)) = to_scene ss"
  "boundary_radius (snd (checkout_region s u ss)) = boundary_radius ss"
  "maxradius (snd (checkout_region s u ss)) = maxradius ss"
  "minradius (snd (checkout_region s u ss)) = minradius ss"
  "maxactive (snd (checkout_region s u ss)) = maxactive ss"
  "nscale (snd (checkout_region s u ss)) = nscale ss"
  "parameter_columns (snd (checkout_region s u ss)) = parameter_columns ss"
  "n_sources (snd (checkout_region s u ss)) = n_sources ss"
  "cat_dtype (snd (checkout_region s u ss)) = cat_dtype ss"
  by (simp_all add: checkout_region_def Let_def split: sum.splits prod.splits selection.splits)

theorem checkout_conflict_witness:
  "draw_center scenario_A_out (Some 3) 0 = Inr (6, 0)
   \<and> length (scene_coordinates scenario_A_out) = length (sourcecat scenario_A_out)
   \<and> 0 \<in> set (query_ball_point (scene_coordinates scenario_A_out) (6, 0) (boundary_radius scenario_A_out))
   \<and> is_active (sourcecat scenario_A_out ! 0)
   \<and> checkout_region (Some 3) 0 scenario_A_out = (Inr (NoRegion (6, 0)), scenario_A_out)"
proof -
  have f: "scene_coordinates scenario_A_out = [(0, 0), (2, 0), (4, 0), (6, 0), (8, 0)]"
    "boundary_radius scenario_A_out = 8" "to_scene scenario_A_out = (\<lambda>p. p)"
    by (simp_all add: scenario_A_out_def checkout_region_fields scenario_A_simps)
  have d: "draw_center scenario_A_out (Some 3) 0 = Inr (6, 0)"
    by (simp add: draw_center_def norm_index_def scenario_A_out_sourcecat line_source_simps)
  have l: "length (scene_coordinates scenario_A_out) = length (sourcecat scenario_A_out)"
    by (simp add: f scenario_A_out_sourcecat)
  have k: "0 \<in> set (query_ball_point (scene_coordinates scenario_A_out) (6, 0) (boundary_radius scenario_A_out))"
    by (simp add: f query_ball_point_def distance_to_def)
  have a: "is_active (sourcecat scenario_A_out ! 0)"
    by (simp add: scenario_A_out_sourcecat)
  have "\<exists>k \<in> set (query_ball_point (scene_coordinates scenario_A_out)
                     (to_scene scenario_A_out (6, 0)) (boundary_radius scenario_A_out)).
           is_active (sourcecat scenario_A_out ! k)"
    using k a unfolding f(3) by blast
  from checkout_conflict[OF d l this] d l k a show ?thesis by (simp add: f)
qed

subsection \<open>Construction\<close>

text \<open>
  C10. Whatever \<open>nscale\<close> is passed to the constructor, the scene it builds is the same and
  its \<open>nscale\<close> field is 3: the outer and inner distances of the patch selection are the
  distance plus or minus 3 half-light radii.
\<close>

theorem nscale_ignored:
  assumes "SuperScene_init cat dt PAR_COLS sky_to_scene args = Inr ss"
  shows "nscale ss = 3
       \<and> SuperScene_init cat dt PAR_COLS sky_to_scene (args\<lparr>arg_nscale := v\<rparr>) = Inr ss
       \<and> outer_distance ss center kinds
           = map (\<lambda>k. distance_to center (scene_coordinates ss ! k) + 3 * cols (sourcecat ss ! k) ''rhalf'') kinds
       \<and> inner_distance ss center kinds
           = map (\<lambda>k. distance_to center (scene_coordinates ss ! k) - 3 * cols (sourcecat ss ! k) ''rhalf'') kinds"
proof -
  have n: "nscale ss = 3"
    using assms by (auto simp: SuperScene_init_def split: sum.splits)
  have "SuperScene_init cat dt PAR_COLS sky_to_scene (args\<lparr>arg_nscale := v\<rparr>)
          = SuperScene_init cat dt PAR_COLS sky_to_scene args"
    by (simp add: SuperScene_init_def split: sum.splits)
  with assms n show ?thesis by (simp add: outer_distance_def inner_distance_def)
qed

lemma ingest_Inr:
  assumes "''ra'' \<in> set (names cat)" "''dec'' \<in> set (names cat)"
  shows "\<exists>sc. ingest cat extra rhrange rotate_pa = Inr sc"
  using assms unfolding ingest_def Let_def by simp

lemma catalog_file_init:
  "\<exists>ss. SuperScene_init catalog_file int32_dtype [] (\<lambda>p. p) args = Inr ss"
proof -
  have "''ra'' \<in> set (names catalog_file)" "''dec'' \<in> set (names catalog_file)"
    by (simp_all add: catalog_file_def)
  then obtain sc where
    "ingest catalog_file (float_names int32_dtype) (arg_rhrange args) (arg_rotate args) = Inr sc"
    using ingest_Inr by blast
  then show ?thesis by (simp add: SuperScene_init_def)
qed

theorem nscale_ignored_witness:
  "arg_nscale (default_args\<lparr>arg_nscale := 7\<rparr>) = 7
   \<and> (\<exists>ss. SuperScene_init catalog_file int32_dtype [] (\<lambda>p. p) (default_args\<lparr>arg_nscale := 7\<rparr>) = Inr ss
          \<and> nscale ss = 3
          \<and> SuperScene_init catalog_file int32_dtype [] (\<lambda>p. p) default_args = Inr ss)"
proof -
  obtain ss where ss: "SuperScene_init catalog_file int32_dtype [] (\<lambda>p. p) (default_args\<lparr>arg_nscale := 7\<rparr>) = Inr ss"
    using catalog_file_init by blast
  from nscale_ignored[OF ss, of 3] have "nscale ss = 3"
    and "SuperScene_init catalog_file int32_dtype [] (\<lambda>p. p) (default_args\<lparr>arg_nscale := 7, arg_nscale := 3\<rparr>) = Inr ss"
    by auto
  moreover have "default_args\<lparr>arg_nscale := 7, arg_nscale := 3\<rparr> = default_args"
    by (simp add: default_args_def)
  ultimately show ?thesis using ss by auto
qed





subsection \<open>The count of candidates inside the maximum radius\<close>

text \<open>
  \<open>N_inside\<close> is the number of sorted outer distances below \<open>maxradius\<close> as long as one of
  them is not below it; when all of them are, it is 0.
\<close>

lemma argmin_all_True: "\<forall>b \<in> set bs. b \<Longrightarrow> argmin bs = 0"
proof (cases bs)
  case Nil
  then show ?thesis by (simp add: argmin_def)
next
  case (Cons b bs')
  assume "\<forall>b \<in> set bs. b"
  then have s: "set bs = {True}" and b: "b" using Cons by auto
  have "Min (set bs) = True" unfolding s by simp
  then have "argmin bs = length (takeWhile (\<lambda>x. True < x) bs)" by (simp add: argmin_def)
  then show ?thesis using Cons b by simp
qed

lemma argmin_some_False:
  assumes "False \<in> set bs"
  shows "argmin bs = length (takeWhile (\<lambda>b. b) bs)"
proof -
  have "Min (set bs) \<le> False" using assms by (intro Min_le) auto
  then have "Min (set bs) = False" by simp
  then have "argmin bs = length (takeWhile (\<lambda>x. False < x) bs)" by (simp add: argmin_def)
  then show ?thesis by simp
qed

lemma takeWhile_filter_sorted:
  "sorted xs \<Longrightarrow> takeWhile (\<lambda>x. x < (m::real)) xs = filter (\<lambda>x. x < m) xs"
proof (induction xs)
  case Nil
  then show ?case by simp
next
  case (Cons a xs)
  show ?case
  proof (cases "a < m")
    case True
    with Cons show ?thesis by simp
  next
    case False
    then have "\<forall>x \<in> set xs. \<not> x < m" using Cons.prems by auto
    then have "filter (\<lambda>x. x < m) xs = []" by (simp add: filter_empty_conv)
    with False show ?thesis by simp
  qed
qed

lemma N_inside_all_inside: "\<forall>x \<in> set xs. x < m \<Longrightarrow> N_inside xs m = 0"
  unfolding N_inside_def by (rule argmin_all_True) simp

lemma N_inside_some_outside:
  assumes "sorted xs" and "\<exists>x \<in> set xs. \<not> x < m"
  shows "N_inside xs m = length (filter (\<lambda>x. x < m) xs)"
proof -
  have "False \<in> set (map (\<lambda>x. x < m) xs)" using assms(2) by auto
  then have "N_inside xs m = length (takeWhile (\<lambda>b. b) (map (\<lambda>x. x < m) xs))"
    unfolding N_inside_def by (rule argmin_some_False)
  also have "\<dots> = length (takeWhile (\<lambda>x. x < m) xs)"
    by (simp add: takeWhile_map comp_def)
  finally show ?thesis using assms(1) by (simp add: takeWhile_filter_sorted)
qed

text \<open>
  C2, at an isolated source: its outer distance 0.3 is the only one and is below
  \<open>maxradius = 5\<close>, so one candidate is inside; \<open>N_inside\<close> is 0, no source becomes active,
  and the maximum over the empty active set raises ValueError.
\<close>

theorem N_inside_collapses:
  "query_ball_point (scene_coordinates lone) (0, 0) (boundary_radius lone) = [0]
   \<and> outer_distance lone (0, 0) [0] = [3 / 10]
   \<and> length (filter (\<lambda>x. x < maxradius lone) [3 / 10]) = 1
   \<and> N_inside [3 / 10] (maxradius lone) = 0
   \<and> get_circular_scene lone (0, 0) = Inl ValueError"
proof -
  have f: "scene_coordinates lone = [(0, 0)]" "boundary_radius lone = 8" "maxradius lone = 5"
    "maxactive lone = 20" "sourcecat lone = [line_source 0 0]" "nscale lone = 3"
    by (simp_all add: lone_def)
  have k: "query_ball_point (scene_coordinates lone) (0, 0) (boundary_radius lone) = [0]"
    by (simp add: f query_ball_point_def distance_to_def)
  have out: "outer_distance lone (0, 0) [0] = [3 / 10]"
    by (simp add: outer_distance_def f line_source_simps distance_to_def)
  have inn: "inner_distance lone (0, 0) [0] = [- 3 / 10]"
    by (simp add: inner_distance_def f line_source_simps distance_to_def)
  have ord: "argsort [3 / 10] = [0]" by (simp add: argsort_def)
  have so: "map (\<lambda>j. [3 / 10 :: real] ! j) [0] = [3 / 10]" by simp
  have ni5: "N_inside [3 / 10] 5 = 0"
    by (simp add: N_inside_def argmin_def)
  have ni: "N_inside [3 / 10] (maxradius lone) = 0"
    by (simp add: f ni5)
  have na: "min (maxactive lone) (int (N_inside [3 / 10] (maxradius lone))) = 0"
    by (simp add: f ni5)
  have "get_circular_scene lone (0, 0) = Inl ValueError"
    by (subst get_circular_scene_eval[OF k _ _ _ out inn ord so na])
       (simp_all add: f line_source_simps amax_def slice_to_def)
  with k out ni show ?thesis by (simp add: f)
qed


end
